theory Spec2Isabelle
  imports Main "HOL-Library.Word" "HOL-Library.Multiset"
begin

section \<open>Time values and durations\<close>

text \<open>
  A Go \<open>time.Time\<close> is modelled by the instant it denotes and the UTC offset that its
  location has at that instant. \<open>instant\<close> counts nanoseconds since January 1, year 1,
  00:00:00 UTC, the instant of the zero value \<open>time.Time{}\<close>; it combines Go's seconds and
  nanoseconds fields. \<open>zone\<close> is the offset east of UTC in seconds. Monotonic clock
  readings are not modelled: the timestamps of the ledger are built with \<open>time.Date\<close>,
  which has none.

  A \<open>time.Duration\<close> is a signed 64-bit count of nanoseconds.

  A \<open>time.Location\<close> is modelled by its lookup function: for a second (counted from the
  same epoch) the zone in effect, as its offset and the first and the end second of the
  period in which it applies. \<open>FixedZone\<close> is a location with one zone for all time.
\<close>

record Time =
  instant :: int
  zone :: int

type_synonym Duration = "64 word"

type_synonym Location = "int \<Rightarrow> int \<times> int \<times> int"

definition FixedZone :: "int \<Rightarrow> Location" where
  "FixedZone offset = (\<lambda>sec. (offset, - (2 ^ 63), 2 ^ 63 - 1))"

definition UTC :: Location where
  "UTC = FixedZone 0"

definition zeroTime :: Time where
  "zeroTime = \<lparr>instant = 0, zone = 0\<rparr>"

definition IsZero :: "Time \<Rightarrow> bool" where
  "IsZero t \<longleftrightarrow> instant t = 0"

definition Before :: "Time \<Rightarrow> Time \<Rightarrow> bool" where
  "Before t u \<longleftrightarrow> instant t < instant u"

definition minDuration :: Duration where
  "minDuration = word_of_int (- (2 ^ 63))"

definition maxDuration :: Duration where
  "maxDuration = word_of_int (2 ^ 63 - 1)"

text \<open>
  \<open>Time.Sub\<close>: the difference is computed in 64-bit arithmetic; when adding it back to
  \<open>u\<close> does not give \<open>t\<close> the difference did not fit and the result saturates.
\<close>

definition Sub :: "Time \<Rightarrow> Time \<Rightarrow> Duration" where
  "Sub t u =
     (let d = (word_of_int (instant t - instant u) :: Duration)
      in if instant u + sint d = instant t then d
         else if Before t u then minDuration
         else maxDuration)"

text \<open>
  \<open>time.Date\<close> for fields that are in range (no normalisation of an overflowing month,
  day, hour or minute is modelled; \<open>ParseTime\<close> checks hour and minute before the call).
  The calendar is the proleptic Gregorian one. The wall-clock reading is first taken as if
  it were UTC, the zone in effect then is looked up, and when the reading minus that zone's
  offset falls outside the zone's period the offset is looked up again there.
\<close>

definition isLeap :: "int \<Rightarrow> bool" where
  "isLeap year \<longleftrightarrow> year mod 4 = 0 \<and> (year mod 100 \<noteq> 0 \<or> year mod 400 = 0)"

definition daysBefore :: "int list" where
  "daysBefore = [0, 31, 59, 90, 120, 151, 181, 212, 243, 273, 304, 334, 365]"

definition daysSinceEpoch :: "int \<Rightarrow> int" where
  "daysSinceEpoch year = (let y = year - 1 in 365 * y + y div 4 - y div 100 + y div 400)"

definition zone_offset :: "Location \<Rightarrow> int \<Rightarrow> int" where
  "zone_offset loc unix =
     (case loc unix of (offset, start, end) \<Rightarrow>
        if offset \<noteq> 0 then
          (let utc = unix - offset
           in if utc < start \<or> utc \<ge> end then fst (loc utc) else offset)
        else offset)"

definition Date :: "int \<Rightarrow> int \<Rightarrow> int \<Rightarrow> int \<Rightarrow> int \<Rightarrow> int \<Rightarrow> int \<Rightarrow> Location \<Rightarrow> Time" where
  "Date year month day hour minute sec nsec loc =
     (let d = daysSinceEpoch year + daysBefore ! nat (month - 1)
              + (if isLeap year \<and> month \<ge> 3 then 1 else 0) + (day - 1);
          abs = d * 86400 + hour * 3600 + minute * 60 + sec;
          unix = abs - zone_offset loc abs
      in \<lparr>instant = unix * 1000000000 + nsec, zone = fst (loc unix)\<rparr>)"

text \<open>The clock fields \<open>Format\<close> reads: the time of day at the value's own offset.\<close>

definition abs_sec :: "Time \<Rightarrow> int" where
  "abs_sec t = instant t div 1000000000 + zone t"

definition Hour_of :: "Time \<Rightarrow> int" where
  "Hour_of t = (abs_sec t mod 86400) div 3600"

definition Minute_of :: "Time \<Rightarrow> int" where
  "Minute_of t = (abs_sec t mod 3600) div 60"

definition Second_of :: "Time \<Rightarrow> int" where
  "Second_of t = abs_sec t mod 60"

definition Nanosecond_of :: "Time \<Rightarrow> int" where
  "Nanosecond_of t = instant t mod 1000000000"

definition Nanosecond :: Duration where "Nanosecond = 1"
definition Second :: Duration where "Second = 1000000000 * Nanosecond"
definition Minute :: Duration where "Minute = 60 * Second"
definition Hour :: Duration where "Hour = 60 * Minute"

section \<open>The ledger: \<open>Durations\<close>\<close>

type_synonym Durations = "Time list"

text \<open>
  \<open>sort.Slice\<close> with the comparison \<open>times[i].Before(times[j])\<close> orders by instant.
  It promises no order among entries with the same instant; the model keeps them in the
  order they had, as \<open>sort.Slice\<close> does on a slice that is already in order. The
  operations return the new sequence; the sharing of the backing array between the
  argument and the result of \<open>append\<close> is not modelled.
\<close>

definition sortTimesAscending :: "Time list \<Rightarrow> Time list" where
  "sortTimesAscending ts = sort_key instant ts"

definition Last :: "Durations \<Rightarrow> Time" where
  "Last durations = (if length durations = 0 then zeroTime else durations ! (length durations - 1))"

definition Append :: "Durations \<Rightarrow> Time \<Rightarrow> Durations" where
  "Append durations t = sortTimesAscending (durations @ [t])"

definition RemoveItem :: "Durations \<Rightarrow> int \<Rightarrow> Durations" where
  "RemoveItem duration index =
     (if index < 0 \<or> index \<ge> int (length duration) then duration
      else sortTimesAscending (take (nat index) duration @ drop (nat index + 1) duration))"

text \<open>
  The summation loop of \<open>SumPairedDurationsWithNow\<close>, with its index \<open>i\<close> and its
  accumulator \<open>total\<close> (here \<open>total_d\<close>); \<open>total += d\<close> is 64-bit addition.
\<close>

function sum_loop :: "Time list \<Rightarrow> nat \<Rightarrow> Duration \<Rightarrow> Duration" where
  "sum_loop tlist i total_d =
     (if i < length tlist then
        (if i + 1 \<ge> length tlist then total_d
         else let start = tlist ! i;
                  end = tlist ! (i + 1);
                  d = Sub end start
              in sum_loop tlist (i + 2) (if 0 <s d then total_d + d else total_d))
      else total_d)"
  by pat_completeness auto
termination
  by (relation "measure (\<lambda>(tlist, i, total_d). length tlist - i)") auto

declare sum_loop.simps [simp del]

text \<open>
  \<open>working_copy\<close> is the first part of the body of \<open>SumPairedDurationsWithNow\<close>: the
  private copy \<open>tlist\<close>, extended by \<open>now\<close> when its length is odd and \<open>now\<close> is not the
  zero time, then sorted.
\<close>

definition working_copy :: "Durations \<Rightarrow> Time \<Rightarrow> Time list" where
  "working_copy ts now =
     (let tlist = ts;
          tlist = (if length tlist mod 2 = 1 \<and> \<not> IsZero now then tlist @ [now] else tlist)
      in sortTimesAscending tlist)"

definition SumPairedDurationsWithNow :: "Durations \<Rightarrow> Time \<Rightarrow> Duration" where
  "SumPairedDurationsWithNow ts now =
     (if length ts = 0 then 0
      else sum_loop (working_copy ts now) 0 0)"

section \<open>The short-time parser\<close>

subsection \<open>The pattern \<open>validTimeFormat\<close>\<close>

text \<open>
  The fragment of regular-expression syntax the pattern uses. \<open>rx_rest r s\<close> lists what
  is left of \<open>s\<close> after each way of matching \<open>r\<close> at its start. \<open>\d\<close> is an ASCII
  digit. A bounded repetition \<open>r{lo,hi}\<close> is \<open>lo\<close> copies of \<open>r\<close> followed by
  \<open>hi - lo\<close> nested optional copies. Strings are lists of bytes: a digit and the colon
  are one byte each, and no byte of a longer UTF-8 sequence is one of them.
\<close>

datatype rx = Eps | Digit | Lit char | Cat rx rx | Alt rx rx | Opt rx

definition isDigit :: "char \<Rightarrow> bool" where
  "isDigit c \<longleftrightarrow> c \<in> set ''0123456789''"

fun rx_rest :: "rx \<Rightarrow> string \<Rightarrow> string list" where
  "rx_rest Eps s = [s]"
| "rx_rest Digit s = (case s of [] \<Rightarrow> [] | c # cs \<Rightarrow> if isDigit c then [cs] else [])"
| "rx_rest (Lit a) s = (case s of [] \<Rightarrow> [] | c # cs \<Rightarrow> if c = a then [cs] else [])"
| "rx_rest (Cat r1 r2) s = concat (map (rx_rest r2) (rx_rest r1 s))"
| "rx_rest (Alt r1 r2) s = rx_rest r1 s @ rx_rest r2 s"
| "rx_rest (Opt r) s = rx_rest r s @ [s]"

primrec at_most :: "rx \<Rightarrow> nat \<Rightarrow> rx" where
  "at_most r 0 = Eps"
| "at_most r (Suc n) = Opt (Cat r (at_most r n))"

primrec copies :: "rx \<Rightarrow> nat \<Rightarrow> rx \<Rightarrow> rx" where
  "copies r 0 k = k"
| "copies r (Suc n) k = Cat r (copies r n k)"

definition repeat :: "rx \<Rightarrow> nat \<Rightarrow> nat \<Rightarrow> rx" where
  "repeat r lo hi = copies r lo (at_most r (hi - lo))"

text \<open>The pattern \<^verbatim>\<open>^(\d{1,4}|\d{1,2}:\d{2})$\<close>; the anchors make \<open>MatchString\<close> match the whole input.\<close>

definition validTimeFormat :: rx where
  "validTimeFormat =
     Alt (repeat Digit 1 4) (Cat (repeat Digit 1 2) (Cat (Lit CHR '':'') (repeat Digit 2 2)))"

definition MatchString :: "rx \<Rightarrow> string \<Rightarrow> bool" where
  "MatchString re s \<longleftrightarrow> [] \<in> set (rx_rest re s)"

subsection \<open>Library functions used by \<open>ParseTime\<close>\<close>

definition digit_val :: "char \<Rightarrow> nat" where
  "digit_val c = of_char c - 48"

text \<open>\<open>strconv.Atoi\<close>: an optional sign, then decimal digits; the value must fit 64 bits.\<close>

definition Atoi :: "string \<Rightarrow> int option" where
  "Atoi s =
     (let (neg, ds) = (case s of
                         [] \<Rightarrow> (False, s)
                       | c # cs \<Rightarrow> if c = CHR ''-'' then (True, cs)
                                  else if c = CHR ''+'' then (False, cs)
                                  else (False, s))
      in if ds = [] \<or> \<not> list_all isDigit ds then None
         else let n = foldl (\<lambda>n c. n * 10 + int (digit_val c)) 0 ds;
                  v = (if neg then - n else n)
              in if v < - (2 ^ 63) \<or> 2 ^ 63 - 1 < v then None else Some v)"

text \<open>\<open>strings.ReplaceAll(timeStr, ":", "")\<close>\<close>

definition remove_colons :: "string \<Rightarrow> string" where
  "remove_colons s = filter (\<lambda>c. c \<noteq> CHR '':'') s"

text \<open>\<open>fmt.Sprintf("%02s00", timeStr)\<close>: the string padded on the left with zeros to width 2,
  then the literal \<open>00\<close>.\<close>

definition Sprintf_02s00 :: "string \<Rightarrow> string" where
  "Sprintf_02s00 s = replicate (2 - length s) CHR ''0'' @ s @ ''00''"

text \<open>\<open>Format("15:04")\<close>: two-digit hour, a colon, two-digit minute.\<close>

definition two_digits :: "int \<Rightarrow> string" where
  "two_digits n = [''0123456789'' ! nat (n div 10), ''0123456789'' ! nat (n mod 10)]"

definition FormatTime :: "Time \<Rightarrow> string" where
  "FormatTime d = two_digits (Hour_of d) @ '':'' @ two_digits (Minute_of d)"

definition StringSlice :: "Durations \<Rightarrow> string list" where
  "StringSlice duration = map FormatTime duration"

subsection \<open>\<open>ParseTime\<close>\<close>

text \<open>
  Each error return of \<open>ParseTime\<close> is a constructor of \<open>error\<close>; all of them are values
  built by \<open>fmt.Errorf\<close>. \<open>ParseTime\<close> reads the clock: the record \<open>Now\<close> holds what it
  uses of \<open>time.Now()\<close>, the calendar date in the local zone, and the location
  \<open>time.Local\<close>.
\<close>

datatype error =
    NotSupportedFormat string
  | UnsupportedLength nat
  | InvalidHours
  | InvalidMinutes
  | HoursOutOfRange int
  | MinutesOutOfRange int

record Now =
  Year :: int
  Month :: int
  Day :: int
  Local :: Location

text \<open>\<open>normalize\<close> is the \<open>switch\<close> on the length of the string without colons.\<close>

definition normalize :: "string \<Rightarrow> error + string" where
  "normalize timeStr =
     (if length timeStr = 1 \<or> length timeStr = 2 then Inr (Sprintf_02s00 timeStr)
      else if length timeStr = 3 then Inr (''0'' @ timeStr)
      else if length timeStr = 4 then Inr timeStr
      else Inl (UnsupportedLength (length timeStr)))"

definition ParseTime :: "Now \<Rightarrow> string \<Rightarrow> error + Time" where
  "ParseTime now timeStr =
     (if \<not> MatchString validTimeFormat timeStr then Inl (NotSupportedFormat timeStr)
      else case normalize (remove_colons timeStr) of
        Inl e \<Rightarrow> Inl e
      | Inr timeStr \<Rightarrow>
          (case Atoi (take 2 timeStr) of
             None \<Rightarrow> Inl InvalidHours
           | Some hours \<Rightarrow>
               (case Atoi (drop 2 timeStr) of
                  None \<Rightarrow> Inl InvalidMinutes
                | Some minutes \<Rightarrow>
                    if hours < 0 \<or> hours > 23 then Inl (HoursOutOfRange hours)
                    else if minutes < 0 \<or> minutes > 59 then Inl (MinutesOutOfRange minutes)
                    else Inr (Date (Year now) (Month now) (Day now) hours minutes 0 0 (Local now)))))"

section \<open>Specification-side notions\<close>

text \<open>
  The definitions of this section are not translations of code. \<open>pair_sum\<close> is the
  summation loop as a recursion over the list, used to reason about \<open>sum_loop\<close>. The
  others write down the words of the specification of the parser, to be compared with
  \<open>ParseTime\<close>: the accepted grammar, the normalised \<open>HHMM\<close> digits with the hour and
  minute they denote, and the trimming of surrounding white space.
\<close>

fun pair_sum :: "Time list \<Rightarrow> Duration" where
  "pair_sum (s # e # rest) = (if 0 <s Sub e s then Sub e s else 0) + pair_sum rest"
| "pair_sum [s] = 0"
| "pair_sum [] = 0"

definition all_digits :: "string \<Rightarrow> bool" where
  "all_digits s \<longleftrightarrow> list_all isDigit s"

text \<open>Either 1 to 4 decimal digits, or 1 to 2 digits, a single colon, exactly 2 digits.\<close>

definition spec_grammar :: "string \<Rightarrow> bool" where
  "spec_grammar s \<longleftrightarrow>
     (1 \<le> length s \<and> length s \<le> 4 \<and> all_digits s)
     \<or> (let h = takeWhile (\<lambda>c. c \<noteq> CHR '':'') s; m = drop (length h + 1) s
        in length h < length s \<and> 1 \<le> length h \<and> length h \<le> 2 \<and> all_digits h
           \<and> length m = 2 \<and> all_digits m)"

text \<open>Strip the colon; one or two digits are an hour with minutes 00; three digits get one
  leading zero; four digits are \<open>HHMM\<close>.\<close>

definition spec_hhmm :: "string \<Rightarrow> string" where
  "spec_hhmm s =
     (let ds = filter (\<lambda>c. c \<noteq> CHR '':'') s
      in if length ds \<le> 2 then replicate (2 - length ds) CHR ''0'' @ ds @ ''00''
         else if length ds = 3 then CHR ''0'' # ds
         else ds)"

definition decimal :: "string \<Rightarrow> int" where
  "decimal ds = foldl (\<lambda>n c. n * 10 + int (digit_val c)) 0 ds"

definition spec_hour :: "string \<Rightarrow> int" where
  "spec_hour s = decimal (take 2 (spec_hhmm s))"

definition spec_minute :: "string \<Rightarrow> int" where
  "spec_minute s = decimal (drop 2 (spec_hhmm s))"

definition isSpace :: "char \<Rightarrow> bool" where
  "isSpace c \<longleftrightarrow> c \<in> set [CHR '' '', CHR 0x09, CHR 0x0A, CHR 0x0B, CHR 0x0C, CHR 0x0D]"

definition TrimSpace :: "string \<Rightarrow> string" where
  "TrimSpace s = rev (dropWhile isSpace (rev (dropWhile isSpace s)))"

text \<open>The longest input a pattern can match.\<close>

fun rx_max :: "rx \<Rightarrow> nat" where
  "rx_max Eps = 0"
| "rx_max Digit = 1"
| "rx_max (Lit a) = 1"
| "rx_max (Cat r1 r2) = rx_max r1 + rx_max r2"
| "rx_max (Alt r1 r2) = max (rx_max r1) (rx_max r2)"
| "rx_max (Opt r) = rx_max r"

text \<open>
  An example location with a change of offset: Central European Time, one hour east of UTC,
  until March 30, 2025, 01:00 UTC (second 63878893200 of the epoch), and summer time, two
  hours east, from then on.
\<close>

definition CentralEurope2025 :: Location where
  "CentralEurope2025 =
     (\<lambda>sec. if sec < 63878893200 then (3600, - (2 ^ 63), 63878893200)
            else (7200, 63878893200, 2 ^ 63 - 1))"

text \<open>
  \<open>wall_clock\<close> is the wall-clock reading that \<open>time.Date\<close> is given, in seconds of the
  epoch as if it were read in UTC. A location keeps a reading when the offset that
  \<open>time.Date\<close> subtracts from it is the offset in effect at the instant it returns, so
  that the instant reads that wall-clock time in the location. \<open>one_change\<close> is a location
  with one change of offset, at the second \<open>t\<close>.
\<close>

definition wall_clock :: "int \<Rightarrow> int \<Rightarrow> int \<Rightarrow> int \<Rightarrow> int \<Rightarrow> int \<Rightarrow> int" where
  "wall_clock year month day hour minute sec =
     (daysSinceEpoch year + daysBefore ! nat (month - 1)
        + (if isLeap year \<and> month \<ge> 3 then 1 else 0) + (day - 1)) * 86400
     + hour * 3600 + minute * 60 + sec"

definition keeps_reading :: "Location \<Rightarrow> int \<Rightarrow> bool" where
  "keeps_reading loc w \<longleftrightarrow> fst (loc (w - zone_offset loc w)) = zone_offset loc w"

definition one_change :: "int \<Rightarrow> int \<Rightarrow> int \<Rightarrow> Location" where
  "one_change before after t =
     (\<lambda>sec. if sec < t then (before, - (2 ^ 63), t) else (after, t, 2 ^ 63 - 1))"

text \<open>The paired sum in unbounded integers: end minus start of each pair, as instants.\<close>

fun exact_pair_sum :: "Time list \<Rightarrow> int" where
  "exact_pair_sum (s # e # rest) = (instant e - instant s) + exact_pair_sum rest"
| "exact_pair_sum [s] = 0"
| "exact_pair_sum [] = 0"

text \<open>The outcome of parsing for hour \<open>h\<close> and minute \<open>m\<close>: the range checks, then the time
  of day on the current local date.\<close>

definition parse_result :: "Now \<Rightarrow> int \<Rightarrow> int \<Rightarrow> error + Time" where
  "parse_result now h m =
     (if h > 23 then Inl (HoursOutOfRange h)
      else if m > 59 then Inl (MinutesOutOfRange m)
      else Inr (Date (Year now) (Month now) (Day now) h m 0 0 (Local now)))"

section \<open>Durations: saturating subtraction and the summation loop\<close>

lemma sum_loop_pair_sum: "sum_loop tlist i tot = tot + pair_sum (drop i tlist)"
proof (induction tlist i tot rule: sum_loop.induct)
  case (1 tlist i tot)
  show ?case
  proof (cases "i + 1 < length tlist")
    case True
    then have d: "drop i tlist = tlist ! i # tlist ! (i + 1) # drop (i + 2) tlist"
      by (metis Cons_nth_drop_Suc Suc_eq_plus1 add_2_eq_Suc' add_lessD1)
    show ?thesis
      using True 1 by (subst sum_loop.simps) (simp add: d Let_def)
  next
    case False
    then have "drop i tlist = [] \<or> (\<exists>x. drop i tlist = [x])"
      by (cases "drop i tlist"; cases "tl (drop i tlist)") (auto simp: drop_eq_Nil dest!: arg_cong[where f=length])
    with False show ?thesis
      by (subst sum_loop.simps) auto
  qed
qed

lemma sum_loop_start: "sum_loop tlist 0 0 = pair_sum tlist"
  by (simp add: sum_loop_pair_sum)

lemma sint_word_of_int_range:
  "sint (word_of_int d :: 64 word) = d \<longleftrightarrow> - (2 ^ 63) \<le> d \<and> d < 2 ^ 63"
  by (simp add: sint_sbintrunc' signed_take_bit_int_eq_self_iff)

lemma sint_maxDuration: "sint maxDuration = 2 ^ 63 - 1"
  by (simp add: maxDuration_def)

lemma sint_minDuration: "sint minDuration = - (2 ^ 63)"
  by (simp add: minDuration_def)

lemma sint_Sub:
  "sint (Sub t u) = max (- (2 ^ 63)) (min (2 ^ 63 - 1) (instant t - instant u))"
proof -
  let ?D = "instant t - instant u"
  have eq: "instant u + sint (word_of_int ?D :: 64 word) = instant t
      \<longleftrightarrow> - (2 ^ 63) \<le> ?D \<and> ?D < 2 ^ 63"
    using sint_word_of_int_range [of ?D] by auto
  show ?thesis
  proof (cases "- (2 ^ 63) \<le> ?D \<and> ?D < 2 ^ 63")
    case True
    then have "Sub t u = word_of_int ?D"
      using eq by (simp add: Sub_def Let_def)
    then show ?thesis using True sint_word_of_int_range [of ?D] by simp
  next
    case False
    then show ?thesis using eq
      by (auto simp: Sub_def Let_def Before_def sint_maxDuration sint_minDuration)
  qed
qed

lemma Sub_pos_iff: "0 <s Sub e s \<longleftrightarrow> Before s e"
  by (auto simp add: word_sless_alt sint_Sub Before_def max_def min_def)

lemma Sub_same_instant: "instant e = instant s \<Longrightarrow> Sub e s = 0"
  by (simp add: Sub_def)

lemma pair_sum_closed:
  "pair_sum ys = (\<Sum>k<length ys div 2.
      if Before (ys ! (2 * k)) (ys ! (2 * k + 1)) then Sub (ys ! (2 * k + 1)) (ys ! (2 * k)) else 0)"
proof (induction ys rule: pair_sum.induct)
  case (1 s e rest)
  then show ?case
    by (simp add: sum.lessThan_Suc_shift Sub_pos_iff del: sum.lessThan_Suc cong: if_cong)
qed simp_all

lemma pair_sum_sorted:
  assumes "sorted (map instant ys)"
  shows "pair_sum ys = (\<Sum>k<length ys div 2. Sub (ys ! (2 * k + 1)) (ys ! (2 * k)))"
proof -
  have "(if Before (ys ! (2 * k)) (ys ! (2 * k + 1)) then Sub (ys ! (2 * k + 1)) (ys ! (2 * k)) else 0)
      = Sub (ys ! (2 * k + 1)) (ys ! (2 * k))" if "k < length ys div 2" for k
  proof -
    from that have lt: "2 * k + 1 < length ys" by arith
    then have "instant (ys ! (2 * k)) \<le> instant (ys ! (2 * k + 1))"
      using assms sorted_nth_mono [of "map instant ys" "2 * k" "2 * k + 1"] by simp
    then show ?thesis
      by (auto simp: Before_def Sub_def)
  qed
  then show ?thesis
    by (simp add: pair_sum_closed)
qed

lemma pair_sum_snoc: "even (length ys) \<Longrightarrow> pair_sum (ys @ [t]) = pair_sum ys"
  by (induction ys rule: pair_sum.induct) simp_all

lemma pair_sum_drop_pair:
  "even (length pre) \<Longrightarrow> pair_sum (pre @ post) = pair_sum pre + pair_sum post"
  by (induction pre rule: pair_sum.induct) (simp_all add: add.assoc)

lemma sorted_sortTimes: "sorted (map instant (sortTimesAscending ts))"
  by (simp add: sortTimesAscending_def)

lemma mset_sortTimes: "mset (sortTimesAscending ts) = mset ts"
  by (simp add: sortTimesAscending_def)

lemma length_sortTimes: "length (sortTimesAscending ts) = length ts"
  by (simp add: sortTimesAscending_def)

lemma sortTimes_sorted_id: "sorted (map instant ts) \<Longrightarrow> sortTimesAscending ts = ts"
  by (simp add: sortTimesAscending_def sort_key_id_if_sorted)


lemma working_copy_odd_zero:
  "IsZero now \<Longrightarrow> working_copy ts now = sortTimesAscending ts"
  by (simp add: working_copy_def Let_def)

lemma working_copy_even:
  "even (length ts) \<Longrightarrow> working_copy ts now = sortTimesAscending ts"
  by (simp add: working_copy_def Let_def even_iff_mod_2_eq_zero)

lemma sorted_working_copy: "sorted (map instant (working_copy ts now))"
  by (simp add: working_copy_def Let_def sorted_sortTimes)

lemma SumPaired_pair_sum: "SumPairedDurationsWithNow ts now = pair_sum (working_copy ts now)"
  by (cases ts) (simp_all add: SumPairedDurationsWithNow_def sum_loop_start working_copy_def
      sortTimesAscending_def Let_def)

lemmas Date_eval = Date_def zone_offset_def daysSinceEpoch_def daysBefore_def isLeap_def
  UTC_def FixedZone_def Let_def
lemmas Hour_eval = Hour_def Minute_def Second_def Nanosecond_def

lemma Sub_exact:
  "- (2 ^ 63) \<le> instant t - instant u \<Longrightarrow> instant t - instant u < 2 ^ 63
    \<Longrightarrow> Sub t u = word_of_int (instant t - instant u)"
  using sint_word_of_int_range [of "instant t - instant u"]
  by (simp add: Sub_def Let_def)

section \<open>Properties of \<open>SumPairedDurationsWithNow\<close>\<close>



text \<open>
  C2. For a sequence of odd length and the zero time as \<open>now\<close>, nothing is appended: the
  result is the paired sum over the sorted copy without its last entry, which is the latest
  entry of the sequence and enters no pair; it is also the result for that even-length
  prefix itself. For 08:00, 12:00, 13:00 and the zero time the result is 4 hours.
\<close>

theorem SumPairedDurationsWithNow_odd_zero_now:
  "(odd (length ts) \<and> IsZero now \<longrightarrow>
      (let ys = sortTimesAscending ts
       in even (length (butlast ys)) \<and>
          SumPairedDurationsWithNow ts now
            = (\<Sum>k<length (butlast ys) div 2. Sub (butlast ys ! (2 * k + 1)) (butlast ys ! (2 * k))) \<and>
          SumPairedDurationsWithNow ts now = SumPairedDurationsWithNow (butlast ys) now \<and>
          (\<forall>t \<in> set ts. instant t \<le> instant (last ys))))
   \<and> SumPairedDurationsWithNow
        [Date 2025 1 1 8 0 0 0 UTC, Date 2025 1 1 12 0 0 0 UTC, Date 2025 1 1 13 0 0 0 UTC]
        zeroTime = 4 * Hour"
proof (intro conjI impI)
  assume a: "odd (length ts) \<and> IsZero now"
  define ys where "ys = sortTimesAscending ts"
  have len: "length ys = length ts" by (simp add: ys_def length_sortTimes)
  with a have ne: "ys \<noteq> []" by (cases ys) auto
  have srt: "sorted (map instant ys)" by (simp add: ys_def sorted_sortTimes)
  have ev: "even (length (butlast ys))" using a len ne by simp
  have split: "ys = butlast ys @ [last ys]" using ne by simp
  have srt': "sorted (map instant (butlast ys))"
    using srt by (metis map_butlast sorted_butlast)
  have "pair_sum ys = pair_sum (butlast ys @ [last ys])" using split by simp
  also have "\<dots> = pair_sum (butlast ys)" using ev by (rule pair_sum_snoc)
  finally have ps: "pair_sum ys = pair_sum (butlast ys)" .
  have wc: "working_copy ts now = ys" using a by (simp add: working_copy_odd_zero ys_def)
  have wc': "working_copy (butlast ys) now = butlast ys"
    using ev srt' by (simp add: working_copy_even sortTimes_sorted_id)
  have mx: "\<forall>t \<in> set ts. instant t \<le> instant (last ys)"
  proof
    fix t assume "t \<in> set ts"
    then have "t \<in> set ys" using mset_sortTimes [of ts] by (metis ys_def set_mset_mset)
    then obtain i where i: "i < length ys" "ys ! i = t" by (auto simp: in_set_conv_nth)
    then have "map instant ys ! i \<le> map instant ys ! (length ys - 1)"
      using srt ne by (intro sorted_nth_mono) auto
    then show "instant t \<le> instant (last ys)"
      using i ne by (simp add: last_conv_nth)
  qed
  show "let ys = sortTimesAscending ts
       in even (length (butlast ys)) \<and>
          SumPairedDurationsWithNow ts now
            = (\<Sum>k<length (butlast ys) div 2. Sub (butlast ys ! (2 * k + 1)) (butlast ys ! (2 * k))) \<and>
          SumPairedDurationsWithNow ts now = SumPairedDurationsWithNow (butlast ys) now \<and>
          (\<forall>t \<in> set ts. instant t \<le> instant (last ys))"
    unfolding Let_def ys_def [symmetric]
    using ev mx pair_sum_sorted [OF srt'] 
    by (simp add: SumPaired_pair_sum wc wc' ps)
next
  show "SumPairedDurationsWithNow
        [Date 2025 1 1 8 0 0 0 UTC, Date 2025 1 1 12 0 0 0 UTC, Date 2025 1 1 13 0 0 0 UTC]
        zeroTime = 4 * Hour"
    by (simp add: SumPaired_pair_sum working_copy_def IsZero_def zeroTime_def sortTimesAscending_def
        Sub_def Before_def Date_eval Hour_eval word_sless_alt)
qed

theorem SumPairedDurationsWithNow_odd_zero_now_witness:
  "odd (length [Date 2025 1 1 8 0 0 0 UTC, Date 2025 1 1 12 0 0 0 UTC, Date 2025 1 1 13 0 0 0 UTC])
   \<and> IsZero zeroTime
   \<and> SumPairedDurationsWithNow
        [Date 2025 1 1 8 0 0 0 UTC, Date 2025 1 1 12 0 0 0 UTC, Date 2025 1 1 13 0 0 0 UTC] zeroTime
     = SumPairedDurationsWithNow [Date 2025 1 1 8 0 0 0 UTC, Date 2025 1 1 12 0 0 0 UTC] zeroTime"
proof -
  let ?ts = "[Date 2025 1 1 8 0 0 0 UTC, Date 2025 1 1 12 0 0 0 UTC, Date 2025 1 1 13 0 0 0 UTC]"
  have h: "odd (length ?ts) \<and> IsZero zeroTime"
    by (simp add: IsZero_def zeroTime_def)
  have bl: "butlast (sortTimesAscending ?ts)
      = [Date 2025 1 1 8 0 0 0 UTC, Date 2025 1 1 12 0 0 0 UTC]"
    by (simp add: sortTimesAscending_def Date_eval)
  have imp: "odd (length ?ts) \<and> IsZero zeroTime \<longrightarrow>
      (let ys = sortTimesAscending ?ts
       in even (length (butlast ys)) \<and>
          SumPairedDurationsWithNow ?ts zeroTime
            = (\<Sum>k<length (butlast ys) div 2. Sub (butlast ys ! (2 * k + 1)) (butlast ys ! (2 * k))) \<and>
          SumPairedDurationsWithNow ?ts zeroTime = SumPairedDurationsWithNow (butlast ys) zeroTime \<and>
          (\<forall>t \<in> set ?ts. instant t \<le> instant (last ys)))"
    using SumPairedDurationsWithNow_odd_zero_now [of ?ts zeroTime] by (rule conjunct1)
  from imp h have "SumPairedDurationsWithNow ?ts zeroTime
      = SumPairedDurationsWithNow (butlast (sortTimesAscending ?ts)) zeroTime"
    unfolding Let_def by blast
  with h bl show ?thesis by simp
qed

text \<open>
  C4. For a sequence of even length the result does not depend on \<open>now\<close>. For 08:00, 12:00,
  13:00, 17:00 the result is 8 hours for every \<open>now\<close>.
\<close>

theorem SumPairedDurationsWithNow_even_ignores_now:
  "(even (length ts) \<longrightarrow> SumPairedDurationsWithNow ts now1 = SumPairedDurationsWithNow ts now2)
   \<and> SumPairedDurationsWithNow
        [Date 2025 1 1 8 0 0 0 UTC, Date 2025 1 1 12 0 0 0 UTC,
         Date 2025 1 1 13 0 0 0 UTC, Date 2025 1 1 17 0 0 0 UTC] now = 8 * Hour"
proof (intro conjI impI)
  assume "even (length ts)"
  then show "SumPairedDurationsWithNow ts now1 = SumPairedDurationsWithNow ts now2"
    by (simp add: SumPaired_pair_sum working_copy_even)
next
  show "SumPairedDurationsWithNow
        [Date 2025 1 1 8 0 0 0 UTC, Date 2025 1 1 12 0 0 0 UTC,
         Date 2025 1 1 13 0 0 0 UTC, Date 2025 1 1 17 0 0 0 UTC] now = 8 * Hour"
    by (simp add: SumPaired_pair_sum working_copy_def sortTimesAscending_def
        Sub_def Before_def Date_eval Hour_eval word_sless_alt)
qed

theorem SumPairedDurationsWithNow_even_ignores_now_witness:
  "even (length [Date 2025 1 1 8 0 0 0 UTC, Date 2025 1 1 12 0 0 0 UTC])
   \<and> SumPairedDurationsWithNow [Date 2025 1 1 8 0 0 0 UTC, Date 2025 1 1 12 0 0 0 UTC] zeroTime
     = SumPairedDurationsWithNow [Date 2025 1 1 8 0 0 0 UTC, Date 2025 1 1 12 0 0 0 UTC]
         (Date 2025 1 1 17 0 0 0 UTC)"
  using SumPairedDurationsWithNow_even_ignores_now [of "[Date 2025 1 1 8 0 0 0 UTC, Date 2025 1 1 12 0 0 0 UTC]" zeroTime "Date 2025 1 1 17 0 0 0 UTC"]
  by simp

text \<open>
  C5. The result is the sum, over the pairs (0,1), (2,3), ... of the working copy, of a
  contribution that is \<open>Sub end start\<close> when the end is strictly after the start and zero
  otherwise; the same holds for the loop on any list. So a pair whose end is not strictly
  after its start can be removed without changing the total, the contribution of a pair is
  never negative, a trailing single entry adds nothing, and the empty sequence gives zero.
\<close>

theorem SumPairedDurationsWithNow_zero_contributions:
  "SumPairedDurationsWithNow ts now
     = (\<Sum>k<length (working_copy ts now) div 2.
          if Before (working_copy ts now ! (2 * k)) (working_copy ts now ! (2 * k + 1))
          then Sub (working_copy ts now ! (2 * k + 1)) (working_copy ts now ! (2 * k)) else 0)
   \<and> sum_loop tlist 0 0
     = (\<Sum>k<length tlist div 2.
          if Before (tlist ! (2 * k)) (tlist ! (2 * k + 1))
          then Sub (tlist ! (2 * k + 1)) (tlist ! (2 * k)) else 0)
   \<and> (even (length pre) \<and> \<not> Before start end \<longrightarrow>
        sum_loop (pre @ start # end # post) 0 0 = sum_loop (pre @ post) 0 0)
   \<and> 0 \<le> sint (sum_loop [start, end] 0 0)
   \<and> (even (length pre) \<longrightarrow> sum_loop (pre @ [t]) 0 0 = sum_loop pre 0 0)
   \<and> SumPairedDurationsWithNow [t] zeroTime = 0
   \<and> SumPairedDurationsWithNow [] now = 0"
proof (intro conjI impI)
  show "SumPairedDurationsWithNow ts now
     = (\<Sum>k<length (working_copy ts now) div 2.
          if Before (working_copy ts now ! (2 * k)) (working_copy ts now ! (2 * k + 1))
          then Sub (working_copy ts now ! (2 * k + 1)) (working_copy ts now ! (2 * k)) else 0)"
    by (simp only: SumPaired_pair_sum pair_sum_closed)
next
  show "sum_loop tlist 0 0
     = (\<Sum>k<length tlist div 2.
          if Before (tlist ! (2 * k)) (tlist ! (2 * k + 1))
          then Sub (tlist ! (2 * k + 1)) (tlist ! (2 * k)) else 0)"
    by (simp only: sum_loop_start pair_sum_closed)
next
  assume a: "even (length pre) \<and> \<not> Before start end"
  then have "pair_sum (start # end # post) = pair_sum post"
    by (simp add: Sub_pos_iff)
  with a show "sum_loop (pre @ start # end # post) 0 0 = sum_loop (pre @ post) 0 0"
    by (simp add: sum_loop_start pair_sum_drop_pair)
next
  show "0 \<le> sint (sum_loop [start, end] 0 0)"
    by (simp add: sum_loop_start word_sless_alt)
next
  assume "even (length pre)"
  then show "sum_loop (pre @ [t]) 0 0 = sum_loop pre 0 0"
    by (simp add: sum_loop_start pair_sum_snoc)
next
  show "SumPairedDurationsWithNow [t] zeroTime = 0"
    by (simp add: SumPaired_pair_sum working_copy_def IsZero_def zeroTime_def sortTimesAscending_def)
next
  show "SumPairedDurationsWithNow [] now = 0"
    by (simp add: SumPairedDurationsWithNow_def)
qed

theorem SumPairedDurationsWithNow_zero_contributions_witness:
  "even (length [Date 2025 1 1 8 0 0 0 UTC, Date 2025 1 1 12 0 0 0 UTC])
   \<and> \<not> Before (Date 2025 1 1 15 0 0 0 UTC) (Date 2025 1 1 15 0 0 0 UTC)
   \<and> sum_loop ([Date 2025 1 1 8 0 0 0 UTC, Date 2025 1 1 12 0 0 0 UTC]
        @ Date 2025 1 1 15 0 0 0 UTC # Date 2025 1 1 15 0 0 0 UTC # [Date 2025 1 1 16 0 0 0 UTC]) 0 0
     = sum_loop ([Date 2025 1 1 8 0 0 0 UTC, Date 2025 1 1 12 0 0 0 UTC]
        @ [Date 2025 1 1 16 0 0 0 UTC]) 0 0
   \<and> sum_loop ([Date 2025 1 1 8 0 0 0 UTC, Date 2025 1 1 12 0 0 0 UTC]
        @ [Date 2025 1 1 16 0 0 0 UTC]) 0 0
     = sum_loop [Date 2025 1 1 8 0 0 0 UTC, Date 2025 1 1 12 0 0 0 UTC] 0 0"
proof -
  let ?pre = "[Date 2025 1 1 8 0 0 0 UTC, Date 2025 1 1 12 0 0 0 UTC]"
  let ?t = "Date 2025 1 1 15 0 0 0 UTC"
  let ?u = "Date 2025 1 1 16 0 0 0 UTC"
  have h1: "even (length ?pre)" by simp
  have h2: "\<not> Before ?t ?t" by (simp add: Before_def)
  note c = SumPairedDurationsWithNow_zero_contributions [of _ _ _ ?pre ?t ?t "[?u]" ?u]
  from c have a: "even (length ?pre) \<and> \<not> Before ?t ?t \<longrightarrow>
        sum_loop (?pre @ ?t # ?t # [?u]) 0 0 = sum_loop (?pre @ [?u]) 0 0"
    by blast
  from c have b: "even (length ?pre) \<longrightarrow> sum_loop (?pre @ [?u]) 0 0 = sum_loop ?pre 0 0"
    by blast
  from a b h1 h2 show ?thesis by blast
qed

section \<open>Properties of \<open>Append\<close> and \<open>RemoveItem\<close>\<close>

lemma sorted_remove_nth:
  assumes "sorted (map instant ts)"
  shows "sorted (map instant (take i ts @ drop (Suc i) ts))"
proof -
  have "sorted (map instant (take i ts) @ map instant (drop i ts))"
    using assms by (simp flip: map_append)
  then have s: "sorted (map instant (take i ts))" "sorted (map instant (drop i ts))"
    and le: "\<forall>x \<in> set (take i ts). \<forall>y \<in> set (drop i ts). instant x \<le> instant y"
    by (auto simp: sorted_append)
  have sub: "set (drop (Suc i) ts) \<subseteq> set (drop i ts)"
    by (metis drop_Suc set_drop_subset tl_drop drop_drop plus_1_eq_Suc)
  have "sorted (map instant (drop (Suc i) ts))"
    using sorted_wrt_drop [OF assms, of "Suc i"] by (simp add: drop_map)
  with s le sub show ?thesis
    by (auto simp: sorted_append)
qed

text \<open>
  C9. \<open>Append\<close> (the specification's Insert) returns a sequence in non-decreasing
  chronological order for every input sequence, sorted or not, and it holds exactly the
  old entries and the new one; \<open>RemoveItem\<close> (the specification's RemoveAt) returns a
  sorted sequence for every sorted sequence and every index.
\<close>

theorem ledger_operations_sorted:
  "sorted (map instant (Append ts t))
   \<and> mset (Append ts t) = mset ts + {#t#}
   \<and> (sorted (map instant ts) \<longrightarrow> sorted (map instant (RemoveItem ts i)))"
  by (simp add: Append_def RemoveItem_def sorted_sortTimes mset_sortTimes)

theorem ledger_operations_sorted_witness:
  "sorted (map instant [Date 2025 1 1 8 0 0 0 UTC, Date 2025 1 1 10 0 0 0 UTC, Date 2025 1 1 12 0 0 0 UTC])
   \<and> sorted (map instant
        (RemoveItem [Date 2025 1 1 8 0 0 0 UTC, Date 2025 1 1 10 0 0 0 UTC, Date 2025 1 1 12 0 0 0 UTC] 1))"
proof -
  let ?ts = "[Date 2025 1 1 8 0 0 0 UTC, Date 2025 1 1 10 0 0 0 UTC, Date 2025 1 1 12 0 0 0 UTC]"
  have h: "sorted (map instant ?ts)" by (simp add: Date_eval)
  from ledger_operations_sorted [of ?ts _ 1] have "sorted (map instant ?ts) \<longrightarrow> sorted (map instant (RemoveItem ?ts 1))"
    by blast
  with h show ?thesis by blast
qed

text \<open>
  C8, as stated, fails on an unsorted sequence: \<open>RemoveItem\<close> sorts what remains, so
  removing index 2 of 10:00, 08:00, 12:00 gives 08:00, 10:00 and not 10:00, 08:00.
\<close>

theorem RemoveItem_unsorted_reorders:
  "RemoveItem [Date 2025 1 1 10 0 0 0 UTC, Date 2025 1 1 8 0 0 0 UTC, Date 2025 1 1 12 0 0 0 UTC] 2
     = [Date 2025 1 1 8 0 0 0 UTC, Date 2025 1 1 10 0 0 0 UTC]
   \<and> take 2 [Date 2025 1 1 10 0 0 0 UTC, Date 2025 1 1 8 0 0 0 UTC, Date 2025 1 1 12 0 0 0 UTC]
       @ drop 3 [Date 2025 1 1 10 0 0 0 UTC, Date 2025 1 1 8 0 0 0 UTC, Date 2025 1 1 12 0 0 0 UTC]
     = [Date 2025 1 1 10 0 0 0 UTC, Date 2025 1 1 8 0 0 0 UTC]
   \<and> [Date 2025 1 1 8 0 0 0 UTC, Date 2025 1 1 10 0 0 0 UTC]
     \<noteq> [Date 2025 1 1 10 0 0 0 UTC, Date 2025 1 1 8 0 0 0 UTC]"
  by (simp add: RemoveItem_def sortTimesAscending_def Date_eval)

text \<open>
  C8, amended. For a valid index the result is one entry shorter and is the remaining
  entries in ascending order; when the sequence was sorted this is the remaining entries in
  their original relative order. For an index that is negative or at least the length the
  sequence is returned unchanged.
\<close>

theorem RemoveItem_result:
  "(0 \<le> i \<and> i < int (length ts) \<longrightarrow>
      length (RemoveItem ts i) = length ts - 1
      \<and> mset (RemoveItem ts i) = mset (take (nat i) ts @ drop (nat i + 1) ts)
      \<and> sorted (map instant (RemoveItem ts i))
      \<and> (sorted (map instant ts) \<longrightarrow> RemoveItem ts i = take (nat i) ts @ drop (nat i + 1) ts))
   \<and> (i < 0 \<or> int (length ts) \<le> i \<longrightarrow> RemoveItem ts i = ts)"
proof (intro conjI impI)
  assume a: "0 \<le> i \<and> i < int (length ts)"
  then have r: "RemoveItem ts i = sortTimesAscending (take (nat i) ts @ drop (nat i + 1) ts)"
    by (simp add: RemoveItem_def)
  from a have n: "nat i < length ts" by linarith
  show "length (RemoveItem ts i) = length ts - 1"
    using n by (simp add: r length_sortTimes min_def)
  show "mset (RemoveItem ts i) = mset (take (nat i) ts @ drop (nat i + 1) ts)"
    by (simp only: r mset_sortTimes)
  show "sorted (map instant (RemoveItem ts i))"
    by (simp only: r sorted_sortTimes)
  assume "sorted (map instant ts)"
  then have "sorted (map instant (take (nat i) ts @ drop (nat i + 1) ts))"
    using sorted_remove_nth [of ts "nat i"] by simp
  then show "RemoveItem ts i = take (nat i) ts @ drop (nat i + 1) ts"
    by (simp only: r sortTimes_sorted_id)
next
  assume "i < 0 \<or> int (length ts) \<le> i"
  then show "RemoveItem ts i = ts" by (auto simp: RemoveItem_def)
qed

theorem RemoveItem_result_witness:
  "(0::int) \<le> 1
   \<and> 1 < int (length [Date 2025 1 1 8 0 0 0 UTC, Date 2025 1 1 10 0 0 0 UTC, Date 2025 1 1 12 0 0 0 UTC])
   \<and> sorted (map instant [Date 2025 1 1 8 0 0 0 UTC, Date 2025 1 1 10 0 0 0 UTC, Date 2025 1 1 12 0 0 0 UTC])
   \<and> RemoveItem [Date 2025 1 1 8 0 0 0 UTC, Date 2025 1 1 10 0 0 0 UTC, Date 2025 1 1 12 0 0 0 UTC] 1
     = [Date 2025 1 1 8 0 0 0 UTC, Date 2025 1 1 12 0 0 0 UTC]
   \<and> RemoveItem [Date 2025 1 1 8 0 0 0 UTC, Date 2025 1 1 10 0 0 0 UTC] (- 1)
     = [Date 2025 1 1 8 0 0 0 UTC, Date 2025 1 1 10 0 0 0 UTC]"
proof -
  let ?ts = "[Date 2025 1 1 8 0 0 0 UTC, Date 2025 1 1 10 0 0 0 UTC, Date 2025 1 1 12 0 0 0 UTC]"
  let ?us = "[Date 2025 1 1 8 0 0 0 UTC, Date 2025 1 1 10 0 0 0 UTC]"
  have h1: "(0::int) \<le> 1 \<and> 1 < int (length ?ts)" by simp
  have h2: "sorted (map instant ?ts)" by (simp add: Date_eval)
  have h3: "(- 1 :: int) < 0 \<or> int (length ?us) \<le> - 1" by simp
  from RemoveItem_result [of 1 ?ts] h1 h2
  have a: "RemoveItem ?ts 1 = take (nat 1) ?ts @ drop (nat 1 + 1) ?ts" by blast
  from RemoveItem_result [of "- 1" ?us] h3 have b: "RemoveItem ?us (- 1) = ?us" by blast
  from a have "RemoveItem ?ts 1 = [Date 2025 1 1 8 0 0 0 UTC, Date 2025 1 1 12 0 0 0 UTC]"
    by simp
  with h1 h2 b show ?thesis by blast
qed

section \<open>The sign of the total\<close>

lemma sint_add_nonneg:
  fixes a b :: "64 word"
  assumes "0 \<le> sint a" "0 \<le> sint b" "sint a + sint b < 2 ^ 63"
  shows "sint (a + b) = sint a + sint b"
proof -
  have "sint (a + b) = signed_take_bit 63 (sint a + sint b)"
    by (simp add: sint_word_ariths)
  also have "\<dots> = sint a + sint b"
    using assms by (intro signed_take_bit_int_eq_self) auto
  finally show ?thesis .
qed

lemma exact_pair_sum_bounds:
  "sorted (map instant ys) \<Longrightarrow>
     0 \<le> exact_pair_sum ys \<and> (ys \<noteq> [] \<longrightarrow> exact_pair_sum ys \<le> instant (last ys) - instant (hd ys))"
proof (induction ys rule: exact_pair_sum.induct)
  case (1 s e rest)
  then have se: "instant s \<le> instant e" and srt: "sorted (map instant rest)"
    and er: "\<forall>x \<in> set rest. instant e \<le> instant x"
    by auto
  from 1 srt have ih: "0 \<le> exact_pair_sum rest"
    "rest \<noteq> [] \<longrightarrow> exact_pair_sum rest \<le> instant (last rest) - instant (hd rest)"
    by auto
  show ?case
  proof (cases "rest = []")
    case True
    with se show ?thesis by simp
  next
    case False
    then have "instant e \<le> instant (hd rest)" using er by simp
    with False ih se show ?thesis by auto
  qed
qed simp_all

lemma sint_pair_sum_fits:
  "sorted (map instant ys) \<Longrightarrow> exact_pair_sum ys < 2 ^ 63
    \<Longrightarrow> sint (pair_sum ys) = exact_pair_sum ys"
proof (induction ys rule: pair_sum.induct)
  case (1 s e rest)
  then have se: "instant s \<le> instant e" and srt: "sorted (map instant rest)"
    by auto
  let ?D = "instant e - instant s"
  have rest0: "0 \<le> exact_pair_sum rest"
    using exact_pair_sum_bounds [OF srt] by blast
  have tot: "?D + exact_pair_sum rest < 2 ^ 63" using 1(3) by simp
  have D: "0 \<le> ?D" "?D < 2 ^ 63" using se rest0 tot by auto
  then have sD: "sint (Sub e s) = ?D" by (simp add: sint_Sub)
  define c where "c = (if 0 <s Sub e s then Sub e s else 0)"
  have sc: "sint c = ?D" using sD D(1) by (auto simp: c_def word_sless_alt)
  have "exact_pair_sum rest < 2 ^ 63" using D(1) tot by linarith
  then have ih: "sint (pair_sum rest) = exact_pair_sum rest"
    using 1(1) [OF srt] by blast
  have "sint (c + pair_sum rest) = sint c + sint (pair_sum rest)"
    using sc ih D(1) rest0 tot by (intro sint_add_nonneg) auto
  then show ?case using sc ih by (simp add: c_def)
qed simp_all

lemma exact_pair_sum_window:
  assumes "sorted (map instant ys)"
    and "\<forall>a \<in> set ys. \<forall>b \<in> set ys. instant a - instant b < 2 ^ 63"
  shows "exact_pair_sum ys < 2 ^ 63"
proof (cases "ys = []")
  case True
  then show ?thesis by simp
next
  case False
  then have "instant (last ys) - instant (hd ys) < 2 ^ 63"
    using assms(2) last_in_set hd_in_set by blast
  moreover have "exact_pair_sum ys \<le> instant (last ys) - instant (hd ys)"
    using exact_pair_sum_bounds [OF assms(1)] False by blast
  ultimately show ?thesis by linarith
qed

text \<open>
  C10, as stated, fails: \<open>Sub\<close> saturates at the largest \<open>Duration\<close> (about 292 years) and
  \<open>total += d\<close> wraps around in 64 bits. For the entries January 1 of the years 1001,
  1301, 1601 and 1901 both pairs contribute the largest \<open>Duration\<close> and the total is -2
  nanoseconds.
\<close>

theorem SumPairedDurationsWithNow_overflow_negative:
  "sint (SumPairedDurationsWithNow
      [Date 1001 1 1 0 0 0 0 UTC, Date 1301 1 1 0 0 0 0 UTC,
       Date 1601 1 1 0 0 0 0 UTC, Date 1901 1 1 0 0 0 0 UTC] zeroTime) = - 2
   \<and> Sub (Date 1301 1 1 0 0 0 0 UTC) (Date 1001 1 1 0 0 0 0 UTC) = maxDuration
   \<and> Sub (Date 1901 1 1 0 0 0 0 UTC) (Date 1601 1 1 0 0 0 0 UTC) = maxDuration
   \<and> maxDuration + maxDuration = (- 2 :: Duration)"
  by (simp add: SumPaired_pair_sum working_copy_def sortTimesAscending_def
        Sub_def Before_def Date_eval word_sless_alt maxDuration_def minDuration_def)

text \<open>
  C10, amended. When the exact sum of end minus start over the pairs of the sorted working
  copy is at most \<open>2^63 - 1\<close> nanoseconds, the largest \<open>Duration\<close>, the total is that sum and
  it is greater than or equal to zero. This is so in particular when the timestamps of the
  working copy, that is the entries of the sequence, and \<open>now\<close> only when it is appended,
  lie within \<open>2^63 - 1\<close> nanoseconds of each other.
\<close>

theorem SumPairedDurationsWithNow_nonneg_in_range:
  "(exact_pair_sum (working_copy ts now) \<le> 2 ^ 63 - 1 \<longrightarrow>
      0 \<le> sint (SumPairedDurationsWithNow ts now)
      \<and> sint (SumPairedDurationsWithNow ts now) = exact_pair_sum (working_copy ts now))
   \<and> ((\<forall>a \<in> set (working_copy ts now). \<forall>b \<in> set (working_copy ts now).
          instant a - instant b < 2 ^ 63) \<longrightarrow>
      0 \<le> sint (SumPairedDurationsWithNow ts now)
      \<and> sint (SumPairedDurationsWithNow ts now) = exact_pair_sum (working_copy ts now))"
proof -
  let ?ys = "working_copy ts now"
  have srt: "sorted (map instant ?ys)" by (rule sorted_working_copy)
  have nn: "0 \<le> exact_pair_sum ?ys"
    using exact_pair_sum_bounds [OF srt] by blast
  have fits: "0 \<le> sint (SumPairedDurationsWithNow ts now)
      \<and> sint (SumPairedDurationsWithNow ts now) = exact_pair_sum ?ys"
    if "exact_pair_sum ?ys < 2 ^ 63"
    using sint_pair_sum_fits [OF srt that] nn by (simp add: SumPaired_pair_sum)
  show ?thesis
  proof (rule conjI; rule impI)
    assume "exact_pair_sum ?ys \<le> 2 ^ 63 - 1"
    then have "exact_pair_sum ?ys < 2 ^ 63" by simp
    then show "0 \<le> sint (SumPairedDurationsWithNow ts now)
      \<and> sint (SumPairedDurationsWithNow ts now) = exact_pair_sum ?ys"
      by (rule fits)
  next
    assume "\<forall>a \<in> set ?ys. \<forall>b \<in> set ?ys. instant a - instant b < 2 ^ 63"
    then have "exact_pair_sum ?ys < 2 ^ 63"
      using srt by (intro exact_pair_sum_window)
    then show "0 \<le> sint (SumPairedDurationsWithNow ts now)
      \<and> sint (SumPairedDurationsWithNow ts now) = exact_pair_sum ?ys"
      by (rule fits)
  qed
qed

theorem SumPairedDurationsWithNow_nonneg_in_range_witness:
  "working_copy [Date 2025 1 1 8 0 0 0 UTC, Date 2025 1 1 12 0 0 0 UTC, Date 2025 1 1 13 0 0 0 UTC]
       zeroTime
     = [Date 2025 1 1 8 0 0 0 UTC, Date 2025 1 1 12 0 0 0 UTC, Date 2025 1 1 13 0 0 0 UTC]
   \<and> instant (Date 2025 1 1 13 0 0 0 UTC) - instant (Date 2025 1 1 8 0 0 0 UTC) < 2 ^ 63
   \<and> exact_pair_sum (working_copy
        [Date 2025 1 1 8 0 0 0 UTC, Date 2025 1 1 12 0 0 0 UTC, Date 2025 1 1 13 0 0 0 UTC]
        zeroTime) \<le> 2 ^ 63 - 1
   \<and> 0 \<le> sint (SumPairedDurationsWithNow
        [Date 2025 1 1 8 0 0 0 UTC, Date 2025 1 1 12 0 0 0 UTC, Date 2025 1 1 13 0 0 0 UTC]
        zeroTime)
   \<and> 0 \<le> sint (SumPairedDurationsWithNow
        [Date 2025 1 1 8 0 0 0 UTC, Date 2025 1 1 12 0 0 0 UTC, Date 2025 1 1 13 0 0 0 UTC]
        (Date 2025 1 1 17 0 0 0 UTC))"
proof -
  let ?ts = "[Date 2025 1 1 8 0 0 0 UTC, Date 2025 1 1 12 0 0 0 UTC, Date 2025 1 1 13 0 0 0 UTC]"
  let ?now = "Date 2025 1 1 17 0 0 0 UTC"
  have wc: "working_copy ?ts zeroTime = ?ts"
    by (simp add: working_copy_def IsZero_def zeroTime_def sortTimesAscending_def Date_eval)
  have wc2: "working_copy ?ts ?now = ?ts @ [?now]"
    by (simp add: working_copy_def IsZero_def sortTimesAscending_def Date_eval)
  have h1: "\<forall>a \<in> set (working_copy ?ts zeroTime). \<forall>b \<in> set (working_copy ?ts zeroTime).
      instant a - instant b < 2 ^ 63"
    unfolding wc by (simp add: Date_eval)
  have h2: "exact_pair_sum (working_copy ?ts zeroTime) \<le> 2 ^ 63 - 1"
    unfolding wc by (simp add: Date_eval)
  have h3: "\<forall>a \<in> set (working_copy ?ts ?now). \<forall>b \<in> set (working_copy ?ts ?now).
      instant a - instant b < 2 ^ 63"
    unfolding wc2 by (simp add: Date_eval)
  have d: "instant (Date 2025 1 1 13 0 0 0 UTC) - instant (Date 2025 1 1 8 0 0 0 UTC) < 2 ^ 63"
    by (simp add: Date_eval)
  from SumPairedDurationsWithNow_nonneg_in_range [of ?ts zeroTime] h1
  have a: "0 \<le> sint (SumPairedDurationsWithNow ?ts zeroTime)" by blast
  from SumPairedDurationsWithNow_nonneg_in_range [of ?ts ?now] h3
  have b: "0 \<le> sint (SumPairedDurationsWithNow ?ts ?now)" by blast
  from wc d h2 a b show ?thesis by blast
qed

section \<open>The parser: pattern, grammar and clock fields\<close>

lemma rx_rest_bound: "t \<in> set (rx_rest r s) \<Longrightarrow> length s \<le> length t + rx_max r"
proof (induction r arbitrary: s t)
  case (Cat r1 r2)
  then obtain u where "u \<in> set (rx_rest r1 s)" "t \<in> set (rx_rest r2 u)" by auto
  with Cat.IH show ?case by fastforce
next
  case (Alt r1 r2)
  then have "t \<in> set (rx_rest r1 s) \<or> t \<in> set (rx_rest r2 s)" by simp
  with Alt.IH show ?case by (fastforce simp: max_def)
qed (auto split: list.splits if_splits)

lemma validTimeFormat_expand:
  "validTimeFormat =
     Alt (Cat Digit (Opt (Cat Digit (Opt (Cat Digit (Opt (Cat Digit Eps)))))))
         (Cat (Cat Digit (Opt (Cat Digit Eps))) (Cat (Lit CHR '':'') (Cat Digit (Cat Digit Eps))))"
  by (simp add: validTimeFormat_def repeat_def eval_nat_numeral)

lemma match_length: "MatchString validTimeFormat s \<Longrightarrow> length s \<le> 5"
  using rx_rest_bound [of "[]" validTimeFormat s]
  by (simp add: MatchString_def validTimeFormat_expand)

lemma short_list_shapes:
  "length s \<le> 5 \<Longrightarrow>
     s = [] \<or> (\<exists>a. s = [a]) \<or> (\<exists>a b. s = [a, b]) \<or> (\<exists>a b c. s = [a, b, c])
     \<or> (\<exists>a b c d. s = [a, b, c, d]) \<or> (\<exists>a b c d e. s = [a, b, c, d, e])"
proof -
  assume "length s \<le> 5"
  then have "length s = 0 \<or> length s = Suc 0 \<or> length s = Suc (Suc 0)
      \<or> length s = Suc (Suc (Suc 0)) \<or> length s = Suc (Suc (Suc (Suc 0)))
      \<or> length s = Suc (Suc (Suc (Suc (Suc 0))))"
    by arith
  then show ?thesis
    by (elim disjE) (auto simp: length_Suc_conv)
qed

lemma isDigit_not_colon: "isDigit c \<Longrightarrow> c \<noteq> CHR '':''"
  by (auto simp: isDigit_def)

lemma spec_grammar_length: "spec_grammar s \<Longrightarrow> length s \<le> 5"
proof -
  assume a: "spec_grammar s"
  show ?thesis
  proof (cases "1 \<le> length s \<and> length s \<le> 4 \<and> all_digits s")
    case True then show ?thesis by simp
  next
    case False
    with a have "length (takeWhile (\<lambda>c. c \<noteq> CHR '':'') s) \<le> 2"
      and "length (drop (length (takeWhile (\<lambda>c. c \<noteq> CHR '':'') s) + 1) s) = 2"
      by (auto simp: spec_grammar_def Let_def)
    then show ?thesis by simp
  qed
qed

lemma match_iff_grammar: "MatchString validTimeFormat s \<longleftrightarrow> spec_grammar s"
proof (cases "length s \<le> 5")
  case False
  then show ?thesis using match_length spec_grammar_length by blast
next
  case True
  from short_list_shapes [OF this] show ?thesis
    apply (elim disjE exE)
    apply (simp_all add: MatchString_def validTimeFormat_expand spec_grammar_def all_digits_def Let_def)
    apply (auto dest: isDigit_not_colon)
    done
qed

lemma isDigit_cases:
  "isDigit c \<longleftrightarrow> c = CHR ''0'' \<or> c = CHR ''1'' \<or> c = CHR ''2'' \<or> c = CHR ''3'' \<or> c = CHR ''4''
     \<or> c = CHR ''5'' \<or> c = CHR ''6'' \<or> c = CHR ''7'' \<or> c = CHR ''8'' \<or> c = CHR ''9''"
  by (auto simp: isDigit_def)

lemma digit_val_le: "isDigit c \<Longrightarrow> digit_val c \<le> 9"
  by (auto simp: isDigit_cases digit_val_def)

lemma isDigit_not_sign: "isDigit c \<Longrightarrow> c \<noteq> CHR ''-'' \<and> c \<noteq> CHR ''+''"
  by (auto simp: isDigit_cases)

lemma isDigit_zero: "isDigit CHR ''0''"
  by (simp add: isDigit_def)

lemma digit_val_zero: "digit_val CHR ''0'' = 0"
  by (simp add: digit_val_def)

lemma Atoi_two_digits:
  assumes "isDigit a" "isDigit b"
  shows "Atoi [a, b] = Some (decimal [a, b])"
proof -
  have "int (digit_val a) * 10 + int (digit_val b) \<le> 99"
    using digit_val_le [OF assms(1)] digit_val_le [OF assms(2)] by simp
  then show ?thesis
    using assms isDigit_not_sign [OF assms(1)]
    by (simp add: Atoi_def decimal_def Let_def)
qed

lemma decimal_nonneg: "0 \<le> decimal ds"
proof -
  have "0 \<le> n \<Longrightarrow> 0 \<le> foldl (\<lambda>n c. n * 10 + int (digit_val c)) n ds" for n
    by (induction ds arbitrary: n) simp_all
  then show ?thesis by (simp add: decimal_def)
qed

lemma match_shapes:
  "MatchString validTimeFormat s \<longleftrightarrow>
     (\<exists>a. s = [a] \<and> isDigit a)
     \<or> (\<exists>a b. s = [a, b] \<and> isDigit a \<and> isDigit b)
     \<or> (\<exists>a b c. s = [a, b, c] \<and> isDigit a \<and> isDigit b \<and> isDigit c)
     \<or> (\<exists>a b c d. s = [a, b, c, d] \<and> isDigit a \<and> isDigit b \<and> isDigit c \<and> isDigit d)
     \<or> (\<exists>a c d. s = [a, CHR '':'', c, d] \<and> isDigit a \<and> isDigit c \<and> isDigit d)
     \<or> (\<exists>a b c d. s = [a, b, CHR '':'', c, d] \<and> isDigit a \<and> isDigit b \<and> isDigit c \<and> isDigit d)"
  (is "?L \<longleftrightarrow> ?R")
proof (cases "length s \<le> 5")
  case False
  then have r: "\<not> ?R" by auto
  have "\<not> ?L" using False match_length [of s] by blast
  with r show ?thesis by (simp only: simp_thms)
next
  case True
  from short_list_shapes [OF this] show ?thesis
    by (elim disjE exE) (simp_all add: MatchString_def validTimeFormat_expand)
qed

lemma ParseTime_grammar:
  assumes "spec_grammar s"
  shows "ParseTime now s = parse_result now (spec_hour s) (spec_minute s)"
proof -
  have m: "MatchString validTimeFormat s" using assms by (simp add: match_iff_grammar)
  have nn: "\<not> decimal x < 0" for x using decimal_nonneg [of x] by simp
  from m [unfolded match_shapes] show ?thesis
  proof (elim disjE exE conjE)
    fix a assume "s = [a]" "isDigit a"
    then show ?thesis using m
      by (simp add: ParseTime_def parse_result_def spec_hour_def spec_minute_def
          normalize_def remove_colons_def Sprintf_02s00_def spec_hhmm_def
          Atoi_two_digits isDigit_zero nn isDigit_not_colon)
  next
    fix a b assume "s = [a, b]" "isDigit a" "isDigit b"
    then show ?thesis using m
      by (simp add: ParseTime_def parse_result_def spec_hour_def spec_minute_def
          normalize_def remove_colons_def Sprintf_02s00_def spec_hhmm_def
          Atoi_two_digits isDigit_zero nn isDigit_not_colon)
  next
    fix a b c assume "s = [a, b, c]" "isDigit a" "isDigit b" "isDigit c"
    then show ?thesis using m
      by (simp add: ParseTime_def parse_result_def spec_hour_def spec_minute_def
          normalize_def remove_colons_def Sprintf_02s00_def spec_hhmm_def
          Atoi_two_digits isDigit_zero nn isDigit_not_colon)
  next
    fix a b c d assume "s = [a, b, c, d]" "isDigit a" "isDigit b" "isDigit c" "isDigit d"
    then show ?thesis using m
      by (simp add: ParseTime_def parse_result_def spec_hour_def spec_minute_def
          normalize_def remove_colons_def Sprintf_02s00_def spec_hhmm_def
          Atoi_two_digits isDigit_zero nn isDigit_not_colon)
  next
    fix a c d assume "s = [a, CHR '':'', c, d]" "isDigit a" "isDigit c" "isDigit d"
    then show ?thesis using m
      by (simp add: ParseTime_def parse_result_def spec_hour_def spec_minute_def
          normalize_def remove_colons_def Sprintf_02s00_def spec_hhmm_def
          Atoi_two_digits isDigit_zero nn isDigit_not_colon)
  next
    fix a b c d assume "s = [a, b, CHR '':'', c, d]" "isDigit a" "isDigit b" "isDigit c" "isDigit d"
    then show ?thesis using m
      by (simp add: ParseTime_def parse_result_def spec_hour_def spec_minute_def
          normalize_def remove_colons_def Sprintf_02s00_def spec_hhmm_def
          Atoi_two_digits isDigit_zero nn isDigit_not_colon)
  qed
qed

lemma ParseTime_not_grammar: "\<not> spec_grammar s \<Longrightarrow> ParseTime now s = Inl (NotSupportedFormat s)"
  by (simp add: ParseTime_def match_iff_grammar)

lemma abs_sec_Date:
  "\<exists>D. abs_sec (Date y mo d h m 0 0 (FixedZone z)) = D * 86400 + (h * 3600 + m * 60)"
proof -
  define D where "D = daysSinceEpoch y + daysBefore ! nat (mo - 1)
      + (if isLeap y \<and> mo \<ge> 3 then 1 else 0) + (d - 1)"
  have zo: "zone_offset (FixedZone z) u = z" for u
    by (simp add: zone_offset_def FixedZone_def Let_def)
  have "instant (Date y mo d h m 0 0 (FixedZone z))
      = (D * 86400 + (h * 3600 + m * 60) - z) * 1000000000"
    by (simp add: Date_def Let_def D_def zo)
  moreover have "zone (Date y mo d h m 0 0 (FixedZone z)) = z"
    by (simp add: Date_def Let_def FixedZone_def)
  ultimately have "abs_sec (Date y mo d h m 0 0 (FixedZone z)) = D * 86400 + (h * 3600 + m * 60)"
    by (simp add: abs_sec_def)
  then show ?thesis ..
qed

lemma clock_arith:
  fixes D h m :: int
  assumes "0 \<le> h" "h \<le> 23" "0 \<le> m" "m \<le> 59"
  shows "(D * 86400 + (h * 3600 + m * 60)) mod 86400 div 3600 = h"
    and "(D * 86400 + (h * 3600 + m * 60)) mod 3600 div 60 = m"
    and "(D * 86400 + (h * 3600 + m * 60)) mod 60 = 0"
proof -
  let ?x = "h * 3600 + m * 60"
  have x: "0 \<le> ?x" "?x < 86400" using assms by auto
  have "(D * 86400 + ?x) mod 86400 = ?x"
    using x by simp
  moreover have "?x div 3600 = h" using assms by simp
  ultimately show "(D * 86400 + ?x) mod 86400 div 3600 = h" by simp
  have "(D * 86400 + ?x) mod 3600 = (m * 60) mod 3600"
  proof -
    have "D * 86400 + ?x = (D * 24 + h) * 3600 + m * 60" by simp
    then show ?thesis by (metis mod_mult_self3)
  qed
  also have "\<dots> = m * 60" using assms by simp
  finally show "(D * 86400 + ?x) mod 3600 div 60 = m" by simp
  have "D * 86400 + ?x = (D * 1440 + h * 60 + m) * 60" by simp
  then show "(D * 86400 + ?x) mod 60 = 0" by (metis mod_mult_self2_is_0)
qed

lemma Date_fields:
  assumes "0 \<le> h" "h \<le> 23" "0 \<le> m" "m \<le> 59" and loc: "loc = FixedZone z"
  shows "Hour_of (Date y mo d h m 0 0 loc) = h"
    and "Minute_of (Date y mo d h m 0 0 loc) = m"
    and "Second_of (Date y mo d h m 0 0 loc) = 0"
    and "Nanosecond_of (Date y mo d h m 0 0 loc) = 0"
proof -
  obtain D where D: "abs_sec (Date y mo d h m 0 0 loc) = D * 86400 + (h * 3600 + m * 60)"
    using abs_sec_Date [of y mo d h m z] loc by auto
  show "Hour_of (Date y mo d h m 0 0 loc) = h"
    unfolding Hour_of_def D using assms(1-4) by (rule clock_arith(1))
  show "Minute_of (Date y mo d h m 0 0 loc) = m"
    unfolding Minute_of_def D using assms(1-4) by (rule clock_arith(2))
  show "Second_of (Date y mo d h m 0 0 loc) = 0"
    unfolding Second_of_def D using assms(1-4) by (rule clock_arith(3))
  show "Nanosecond_of (Date y mo d h m 0 0 loc) = 0"
    by (simp add: Nanosecond_of_def Date_def Let_def)
qed

lemma digit_char_of_val: "isDigit c \<Longrightarrow> ''0123456789'' ! digit_val c = c"
  by (auto simp: isDigit_cases digit_val_def)

lemma two_digits_decimal:
  assumes "isDigit a" "isDigit b"
  shows "two_digits (decimal [a, b]) = [a, b]"
proof -
  have le: "digit_val a \<le> 9" "digit_val b \<le> 9"
    using assms by (simp_all add: digit_val_le)
  have "(int (digit_val a) * 10 + int (digit_val b)) div 10 = int (digit_val a)"
    using le by simp
  moreover have "(int (digit_val a) * 10 + int (digit_val b)) mod 10 = int (digit_val b)"
    using le by simp
  ultimately show ?thesis
    using assms by (simp add: two_digits_def decimal_def digit_char_of_val)
qed

lemma decimal_two_le: "isDigit a \<Longrightarrow> isDigit b \<Longrightarrow> decimal [a, b] \<le> 99"
  using digit_val_le [of a] digit_val_le [of b] by (simp add: decimal_def)

lemma grammar_chars:
  assumes "spec_grammar s" "c \<in> set s"
  shows "isDigit c \<or> c = CHR '':''"
  using assms unfolding match_iff_grammar [symmetric] match_shapes by auto

lemma grammar_shapes:
  assumes "isDigit a" "isDigit b" "isDigit c" "isDigit d"
  shows "spec_grammar [a]" "spec_grammar [a, b]" "spec_grammar [a, b, c]" "spec_grammar [a, b, c, d]"
    "spec_grammar [a, CHR '':'', c, d]" "spec_grammar [a, b, CHR '':'', c, d]"
  using assms unfolding match_iff_grammar [symmetric] match_shapes by simp_all

lemma spec_fields_shapes:
  assumes "isDigit a" "isDigit b" "isDigit c" "isDigit d"
  shows "spec_hhmm [a] = [CHR ''0'', a, CHR ''0'', CHR ''0'']"
    "spec_hhmm [a, b] = [a, b, CHR ''0'', CHR ''0'']"
    "spec_hhmm [a, b, c] = [CHR ''0'', a, b, c]"
    "spec_hhmm [a, b, c, d] = [a, b, c, d]"
    "spec_hhmm [a, CHR '':'', c, d] = [CHR ''0'', a, c, d]"
    "spec_hhmm [a, b, CHR '':'', c, d] = [a, b, c, d]"
  using assms by (simp_all add: spec_hhmm_def isDigit_not_colon)

lemma ParseTime_hhmm:
  assumes "spec_grammar s"
  shows "ParseTime now s = ParseTime now (spec_hhmm s)"
proof -
  have g: "spec_grammar (spec_hhmm s)"
    using assms unfolding match_iff_grammar [symmetric] match_shapes
    by (elim disjE exE conjE) (simp_all add: spec_hhmm_def isDigit_not_colon isDigit_zero)
  have i: "spec_hhmm (spec_hhmm s) = spec_hhmm s"
    using assms unfolding match_iff_grammar [symmetric] match_shapes
    by (elim disjE exE conjE) (simp_all add: spec_hhmm_def isDigit_not_colon isDigit_zero)
  show ?thesis
    by (simp add: ParseTime_grammar [OF assms] ParseTime_grammar [OF g] spec_hour_def spec_minute_def i)
qed

lemmas spec_eval = spec_grammar_def all_digits_def spec_hour_def spec_minute_def
  spec_hhmm_def decimal_def digit_val_def isDigit_def Let_def

lemma Date_wall:
  "Date y mo d h m s ns loc =
     \<lparr>instant = (wall_clock y mo d h m s - zone_offset loc (wall_clock y mo d h m s)) * 1000000000 + ns,
      zone = fst (loc (wall_clock y mo d h m s - zone_offset loc (wall_clock y mo d h m s)))\<rparr>"
  by (simp add: Date_def wall_clock_def Let_def)

lemma abs_sec_Date_kept:
  assumes "keeps_reading loc (wall_clock y mo d h m 0)"
  shows "abs_sec (Date y mo d h m 0 0 loc) = wall_clock y mo d h m 0"
  using assms by (simp add: Date_wall abs_sec_def keeps_reading_def)

lemma wall_clock_split:
  "\<exists>D. wall_clock y mo d h m 0 = D * 86400 + (h * 3600 + m * 60)"
  unfolding wall_clock_def by (rule exI) (simp only: add.assoc add_0_right)

lemma Date_fields_kept:
  assumes "0 \<le> h" "h \<le> 23" "0 \<le> m" "m \<le> 59"
    and k: "keeps_reading loc (wall_clock y mo d h m 0)"
  shows "Hour_of (Date y mo d h m 0 0 loc) = h"
    and "Minute_of (Date y mo d h m 0 0 loc) = m"
    and "Second_of (Date y mo d h m 0 0 loc) = 0"
    and "Nanosecond_of (Date y mo d h m 0 0 loc) = 0"
proof -
  obtain D where "wall_clock y mo d h m 0 = D * 86400 + (h * 3600 + m * 60)"
    using wall_clock_split by blast
  then have D: "abs_sec (Date y mo d h m 0 0 loc) = D * 86400 + (h * 3600 + m * 60)"
    using abs_sec_Date_kept [OF k] by simp
  show "Hour_of (Date y mo d h m 0 0 loc) = h"
    unfolding Hour_of_def D using assms(1-4) by (rule clock_arith(1))
  show "Minute_of (Date y mo d h m 0 0 loc) = m"
    unfolding Minute_of_def D using assms(1-4) by (rule clock_arith(2))
  show "Second_of (Date y mo d h m 0 0 loc) = 0"
    unfolding Second_of_def D using assms(1-4) by (rule clock_arith(3))
  show "Nanosecond_of (Date y mo d h m 0 0 loc) = 0"
    by (simp add: Date_wall Nanosecond_of_def)
qed

lemma keeps_reading_FixedZone: "keeps_reading (FixedZone z) w"
  by (simp add: keeps_reading_def zone_offset_def FixedZone_def Let_def)

lemma keeps_reading_one_change:
  "keeps_reading (one_change o1 o2 t) w \<longleftrightarrow> (\<exists>u. u + fst (one_change o1 o2 t u) = w)"
proof
  assume "keeps_reading (one_change o1 o2 t) w"
  then have "(w - zone_offset (one_change o1 o2 t) w)
      + fst (one_change o1 o2 t (w - zone_offset (one_change o1 o2 t) w)) = w"
    by (simp add: keeps_reading_def)
  then show "\<exists>u. u + fst (one_change o1 o2 t u) = w" ..
next
  assume "\<exists>u. u + fst (one_change o1 o2 t u) = w"
  then obtain u where u: "u + fst (one_change o1 o2 t u) = w" ..
  then have "w - o1 < t \<or> t \<le> w - o2"
    by (auto simp: one_change_def split: if_splits)
  then show "keeps_reading (one_change o1 o2 t) w"
    by (auto simp: keeps_reading_def zone_offset_def one_change_def Let_def split: if_splits)
qed

lemma CentralEurope2025_one_change: "CentralEurope2025 = one_change 3600 7200 63878893200"
  by (simp add: CentralEurope2025_def one_change_def)

lemma keeps_reading_CentralEurope2025:
  "keeps_reading CentralEurope2025 w \<longleftrightarrow>
     \<not> (wall_clock 2025 3 30 2 0 0 \<le> w \<and> w < wall_clock 2025 3 30 3 0 0)"
  by (auto simp: keeps_reading_def zone_offset_def CentralEurope2025_def Let_def
      wall_clock_def daysSinceEpoch_def daysBefore_def isLeap_def split: if_splits)

section \<open>Properties of \<open>ParseTime\<close>\<close>

text \<open>
  C3, as stated, fails: \<open>ParseTime\<close> does not trim its input. The input made of a space
  and the digit 7 is rejected, although its trimmed form is in the accepted grammar with
  hour 7 and minute 0.
\<close>

theorem ParseTime_untrimmed_input_rejected:
  "ParseTime \<lparr>Year = 2025, Month = 1, Day = 1, Local = UTC\<rparr> '' 7''
     = Inl (NotSupportedFormat '' 7'')
   \<and> TrimSpace '' 7'' = ''7''
   \<and> spec_grammar (TrimSpace '' 7'')
   \<and> spec_hour (TrimSpace '' 7'') = 7
   \<and> spec_minute (TrimSpace '' 7'') = 0"
  by (simp add: ParseTime_def MatchString_def validTimeFormat_expand isDigit_def
      TrimSpace_def isSpace_def spec_grammar_def all_digits_def spec_hour_def spec_minute_def
      spec_hhmm_def decimal_def digit_val_def)

text \<open>
  C3, amended. \<open>ParseTime\<close> succeeds exactly when the input itself, untrimmed, is in the
  accepted grammar (1 to 4 digits, or 1 to 2 digits, a colon and 2 digits) and the hour and
  the minute it denotes are in 0 to 23 and 0 to 59; every other input gives an error: the
  empty string and any input with a character that is neither a digit nor a colon
  (unsupported format), an hour of 24 or more, a minute of 60 or more.
\<close>

theorem ParseTime_succeeds_iff:
  "((\<exists>t. ParseTime now s = Inr t) \<longleftrightarrow>
       spec_grammar s \<and> 0 \<le> spec_hour s \<and> spec_hour s \<le> 23
       \<and> 0 \<le> spec_minute s \<and> spec_minute s \<le> 59)
   \<and> ((\<exists>e. ParseTime now s = Inl e) \<longleftrightarrow>
       \<not> (spec_grammar s \<and> 0 \<le> spec_hour s \<and> spec_hour s \<le> 23
          \<and> 0 \<le> spec_minute s \<and> spec_minute s \<le> 59))
   \<and> ParseTime now [] = Inl (NotSupportedFormat [])
   \<and> ((\<exists>c \<in> set s. \<not> isDigit c \<and> c \<noteq> CHR '':'') \<longrightarrow>
        ParseTime now s = Inl (NotSupportedFormat s))
   \<and> (spec_grammar s \<and> 24 \<le> spec_hour s \<longrightarrow>
        ParseTime now s = Inl (HoursOutOfRange (spec_hour s)))
   \<and> (spec_grammar s \<and> spec_hour s \<le> 23 \<and> 60 \<le> spec_minute s \<longrightarrow>
        ParseTime now s = Inl (MinutesOutOfRange (spec_minute s)))"
proof -
  have nn: "0 \<le> spec_hour s" "0 \<le> spec_minute s"
    by (simp_all add: spec_hour_def spec_minute_def decimal_nonneg)
  have emp: "\<not> spec_grammar []"
    by (simp add: spec_grammar_def all_digits_def)
  show ?thesis
  proof (cases "spec_grammar s")
    case True
    have chars: "\<not> (\<exists>c \<in> set s. \<not> isDigit c \<and> c \<noteq> CHR '':'')"
      using grammar_chars [OF True] by blast
    show ?thesis
      using True nn chars emp
      by (auto simp: ParseTime_grammar ParseTime_not_grammar parse_result_def)
  next
    case False
    then show ?thesis
      using emp by (simp add: ParseTime_not_grammar)
  qed
qed

theorem ParseTime_succeeds_iff_witness:
  "ParseTime \<lparr>Year = 2025, Month = 1, Day = 1, Local = UTC\<rparr> ''14a00''
     = Inl (NotSupportedFormat ''14a00'')
   \<and> ParseTime \<lparr>Year = 2025, Month = 1, Day = 1, Local = UTC\<rparr> ''25:00''
     = Inl (HoursOutOfRange 25)
   \<and> ParseTime \<lparr>Year = 2025, Month = 1, Day = 1, Local = UTC\<rparr> ''14:60''
     = Inl (MinutesOutOfRange 60)
   \<and> \<not> isl (ParseTime \<lparr>Year = 2025, Month = 1, Day = 1, Local = UTC\<rparr> ''7:30'')"
proof -
  let ?n = "\<lparr>Year = 2025, Month = 1, Day = 1, Local = UTC\<rparr>"
  have h1: "\<exists>c \<in> set ''14a00''. \<not> isDigit c \<and> c \<noteq> CHR '':''"
    by (simp add: isDigit_def)
  have h2: "spec_grammar ''25:00'' \<and> 24 \<le> spec_hour ''25:00''"
    by (simp add: spec_eval)
  have v2: "spec_hour ''25:00'' = 25" by (simp add: spec_eval)
  have h3: "spec_grammar ''14:60'' \<and> spec_hour ''14:60'' \<le> 23 \<and> 60 \<le> spec_minute ''14:60''"
    by (simp add: spec_eval)
  have v3: "spec_minute ''14:60'' = 60" by (simp add: spec_eval)
  have h4: "spec_grammar ''7:30'' \<and> 0 \<le> spec_hour ''7:30'' \<and> spec_hour ''7:30'' \<le> 23
       \<and> 0 \<le> spec_minute ''7:30'' \<and> spec_minute ''7:30'' \<le> 59"
    by (simp add: spec_eval)
  from ParseTime_succeeds_iff [of ?n "''14a00''"] h1
  have a: "ParseTime ?n ''14a00'' = Inl (NotSupportedFormat ''14a00'')" by blast
  from ParseTime_succeeds_iff [of ?n "''25:00''"] h2
  have "ParseTime ?n ''25:00'' = Inl (HoursOutOfRange (spec_hour ''25:00''))" by blast
  then have b: "ParseTime ?n ''25:00'' = Inl (HoursOutOfRange 25)" by (simp only: v2)
  from ParseTime_succeeds_iff [of ?n "''14:60''"] h3
  have "ParseTime ?n ''14:60'' = Inl (MinutesOutOfRange (spec_minute ''14:60''))" by blast
  then have c: "ParseTime ?n ''14:60'' = Inl (MinutesOutOfRange 60)" by (simp only: v3)
  from ParseTime_succeeds_iff [of ?n "''7:30''"] h4
  have "\<exists>t. ParseTime ?n ''7:30'' = Inr t" by blast
  then have d: "\<not> isl (ParseTime ?n ''7:30'')" by auto
  from a b c d show ?thesis by blast
qed

text \<open>
  C6, as stated, fails where the local zone changes its offset: on March 30, 2025 in Central
  Europe the wall-clock time 02:30 does not exist, \<open>time.Date\<close> returns the instant that
  reads 03:30, and formatting gives 03:30 for the input 02:30.
\<close>

theorem ParseTime_roundtrip_fails_in_skipped_hour:
  "ParseTime \<lparr>Year = 2025, Month = 3, Day = 30, Local = CentralEurope2025\<rparr> ''02:30''
     = Inr (Date 2025 3 30 2 30 0 0 CentralEurope2025)
   \<and> FormatTime (Date 2025 3 30 2 30 0 0 CentralEurope2025) = ''03:30''"
proof -
  have g: "spec_grammar ''02:30''" by (simp add: spec_eval)
  have v: "spec_hour ''02:30'' = 2" "spec_minute ''02:30'' = 30" by (simp_all add: spec_eval)
  have p: "ParseTime \<lparr>Year = 2025, Month = 3, Day = 30, Local = CentralEurope2025\<rparr> ''02:30''
     = Inr (Date 2025 3 30 2 30 0 0 CentralEurope2025)"
    by (simp add: ParseTime_grammar [OF g] v parse_result_def)
  have d: "Date 2025 3 30 2 30 0 0 CentralEurope2025
      = \<lparr>instant = 63878895000000000000, zone = 7200\<rparr>"
    by (simp add: Date_def zone_offset_def daysSinceEpoch_def daysBefore_def isLeap_def
        CentralEurope2025_def Let_def)
  have f: "FormatTime \<lparr>instant = 63878895000000000000, zone = 7200\<rparr> = ''03:30''"
    by (simp add: FormatTime_def two_digits_def Hour_of_def Minute_of_def abs_sec_def)
  from p d f show ?thesis by simp
qed

text \<open>
  C6, amended. For every canonical string of two digits, a colon and two digits with the
  hour in 00 to 23 and the minute in 00 to 59, \<open>ParseTime\<close> succeeds and the nanoseconds of
  the result are zero. When the local zone keeps that wall-clock reading on the current
  date, formatting the result as hour and minute gives the input string back and the
  seconds of the result are zero. A zone with a fixed offset keeps every reading; a zone
  with one change of offset keeps exactly the readings that some instant has, and the
  example zone keeps every reading but those of the skipped hour, 02:00 to 02:59 on
  March 30, 2025.
\<close>

theorem ParseTime_canonical_roundtrip:
  "(isDigit a \<and> isDigit b \<and> isDigit c \<and> isDigit d \<and> decimal [a, b] \<le> 23 \<and> decimal [c, d] \<le> 59
    \<longrightarrow>
     ParseTime now [a, b, CHR '':'', c, d]
       = Inr (Date (Year now) (Month now) (Day now) (decimal [a, b]) (decimal [c, d]) 0 0 (Local now))
     \<and> Nanosecond_of (Date (Year now) (Month now) (Day now) (decimal [a, b]) (decimal [c, d]) 0 0 (Local now)) = 0)
   \<and> (isDigit a \<and> isDigit b \<and> isDigit c \<and> isDigit d \<and> decimal [a, b] \<le> 23 \<and> decimal [c, d] \<le> 59
      \<and> keeps_reading (Local now)
           (wall_clock (Year now) (Month now) (Day now) (decimal [a, b]) (decimal [c, d]) 0)
    \<longrightarrow>
     FormatTime (Date (Year now) (Month now) (Day now) (decimal [a, b]) (decimal [c, d]) 0 0 (Local now))
       = [a, b, CHR '':'', c, d]
     \<and> Second_of (Date (Year now) (Month now) (Day now) (decimal [a, b]) (decimal [c, d]) 0 0 (Local now)) = 0)
   \<and> keeps_reading (FixedZone z) w
   \<and> (keeps_reading (one_change o1 o2 t) w \<longleftrightarrow> (\<exists>u. u + fst (one_change o1 o2 t u) = w))
   \<and> CentralEurope2025 = one_change 3600 7200 63878893200
   \<and> (keeps_reading CentralEurope2025 w \<longleftrightarrow>
        \<not> (wall_clock 2025 3 30 2 0 0 \<le> w \<and> w < wall_clock 2025 3 30 3 0 0))"
proof -
  let ?h = "decimal [a, b]" and ?m = "decimal [c, d]"
  let ?t = "Date (Year now) (Month now) (Day now) ?h ?m 0 0 (Local now)"
  have p1: "ParseTime now [a, b, CHR '':'', c, d] = Inr ?t \<and> Nanosecond_of ?t = 0"
    if h: "isDigit a \<and> isDigit b \<and> isDigit c \<and> isDigit d \<and> ?h \<le> 23 \<and> ?m \<le> 59"
  proof -
    from h have dg: "isDigit a" "isDigit b" "isDigit c" "isDigit d" by auto
    have r: "0 \<le> ?h" "?h \<le> 23" "0 \<le> ?m" "?m \<le> 59"
      using h by (auto simp: decimal_nonneg)
    have g: "spec_grammar [a, b, CHR '':'', c, d]" using dg by (rule grammar_shapes)
    have hh: "spec_hhmm [a, b, CHR '':'', c, d] = [a, b, c, d]" using dg by (rule spec_fields_shapes)
    have "ParseTime now [a, b, CHR '':'', c, d] = Inr ?t"
      using r by (simp add: ParseTime_grammar [OF g] parse_result_def spec_hour_def spec_minute_def hh)
    moreover have "Nanosecond_of ?t = 0"
      by (simp add: Date_wall Nanosecond_of_def)
    ultimately show ?thesis by blast
  qed
  have p2: "FormatTime ?t = [a, b, CHR '':'', c, d] \<and> Second_of ?t = 0"
    if h: "isDigit a \<and> isDigit b \<and> isDigit c \<and> isDigit d \<and> ?h \<le> 23 \<and> ?m \<le> 59
      \<and> keeps_reading (Local now) (wall_clock (Year now) (Month now) (Day now) ?h ?m 0)"
  proof -
    from h have dg: "isDigit a" "isDigit b" "isDigit c" "isDigit d" by auto
    from h have k: "keeps_reading (Local now) (wall_clock (Year now) (Month now) (Day now) ?h ?m 0)"
      by blast
    have r: "0 \<le> ?h" "?h \<le> 23" "0 \<le> ?m" "?m \<le> 59"
      using h by (auto simp: decimal_nonneg)
    have "FormatTime ?t = [a, b, CHR '':'', c, d]"
      using dg by (simp add: FormatTime_def Date_fields_kept [OF r k] two_digits_decimal)
    with Date_fields_kept(3) [OF r k] show ?thesis by blast
  qed
  from p1 p2 keeps_reading_FixedZone [of z w] keeps_reading_one_change [of o1 o2 t w]
    CentralEurope2025_one_change keeps_reading_CentralEurope2025 [of w]
  show ?thesis by blast
qed

theorem ParseTime_canonical_roundtrip_witness:
  "isDigit CHR ''0'' \<and> isDigit CHR ''3''
   \<and> decimal ''03'' = 3 \<and> decimal ''30'' = 30
   \<and> keeps_reading CentralEurope2025 (wall_clock 2025 3 30 3 30 0)
   \<and> ParseTime \<lparr>Year = 2025, Month = 3, Day = 30, Local = CentralEurope2025\<rparr> ''03:30''
       = Inr (Date 2025 3 30 3 30 0 0 CentralEurope2025)
   \<and> FormatTime (Date 2025 3 30 3 30 0 0 CentralEurope2025) = ''03:30''
   \<and> Second_of (Date 2025 3 30 3 30 0 0 CentralEurope2025) = 0"
proof -
  let ?n = "\<lparr>Year = 2025, Month = 3, Day = 30, Local = CentralEurope2025\<rparr>"
  have dg: "isDigit CHR ''0'' \<and> isDigit CHR ''3''"
    by (simp add: isDigit_def)
  have v: "decimal ''03'' = 3" "decimal ''30'' = 30"
    by (simp_all add: decimal_def digit_val_def)
  have k: "keeps_reading CentralEurope2025 (wall_clock 2025 3 30 3 30 0)"
    by (simp add: keeps_reading_def zone_offset_def CentralEurope2025_def Let_def
        wall_clock_def daysSinceEpoch_def daysBefore_def isLeap_def)
  have h1: "isDigit CHR ''0'' \<and> isDigit CHR ''3'' \<and> isDigit CHR ''3'' \<and> isDigit CHR ''0''
      \<and> decimal ''03'' \<le> 23 \<and> decimal ''30'' \<le> 59"
    using dg v by simp
  have h2: "isDigit CHR ''0'' \<and> isDigit CHR ''3'' \<and> isDigit CHR ''3'' \<and> isDigit CHR ''0''
      \<and> decimal ''03'' \<le> 23 \<and> decimal ''30'' \<le> 59
      \<and> keeps_reading (Local ?n) (wall_clock (Year ?n) (Month ?n) (Day ?n) (decimal ''03'') (decimal ''30'') 0)"
    using h1 k v by simp
  note c = ParseTime_canonical_roundtrip [of "CHR ''0''" "CHR ''3''" "CHR ''3''" "CHR ''0''" ?n]
  from c h1 have a: "ParseTime ?n ''03:30''
      = Inr (Date (Year ?n) (Month ?n) (Day ?n) (decimal ''03'') (decimal ''30'') 0 0 (Local ?n))"
    by blast
  from c h2 have b: "FormatTime (Date (Year ?n) (Month ?n) (Day ?n) (decimal ''03'') (decimal ''30'') 0 0 (Local ?n))
      = ''03:30''
    \<and> Second_of (Date (Year ?n) (Month ?n) (Day ?n) (decimal ''03'') (decimal ''30'') 0 0 (Local ?n)) = 0"
    by blast
  from a b have "ParseTime ?n ''03:30'' = Inr (Date 2025 3 30 3 30 0 0 CentralEurope2025)
    \<and> FormatTime (Date 2025 3 30 3 30 0 0 CentralEurope2025) = ''03:30''
    \<and> Second_of (Date 2025 3 30 3 30 0 0 CentralEurope2025) = 0"
    by (simp add: v)
  with dg v k show ?thesis by blast
qed

text \<open>
  C7. After the colon is stripped, one digit and two digits are parsed as the hour followed
  by minutes 00 (one digit padded with a zero on the left), three digits as the three
  digits with one zero on the left, and four digits as hour and minute: the inputs 7, 730,
  7:30 and 1400 give hour 7 minute 0, hour 7 minute 30 (twice) and hour 14 minute 0 on the
  current date, which read 07:00, 07:30 and 14:00.
\<close>

theorem ParseTime_normalizes_by_digit_count:
  "(isDigit a \<longrightarrow> ParseTime now [a] = ParseTime now [CHR ''0'', a, CHR ''0'', CHR ''0''])
   \<and> (isDigit a \<and> isDigit b \<longrightarrow>
        ParseTime now [a, b] = ParseTime now [a, b, CHR ''0'', CHR ''0''])
   \<and> (isDigit a \<and> isDigit b \<and> isDigit c \<longrightarrow>
        ParseTime now [a, b, c] = ParseTime now [CHR ''0'', a, b, c]
        \<and> ParseTime now [a, CHR '':'', b, c] = ParseTime now [a, b, c])
   \<and> (isDigit a \<and> isDigit b \<and> isDigit c \<and> isDigit d \<longrightarrow>
        ParseTime now [a, b, c, d]
          = (if decimal [a, b] > 23 then Inl (HoursOutOfRange (decimal [a, b]))
             else if decimal [c, d] > 59 then Inl (MinutesOutOfRange (decimal [c, d]))
             else Inr (Date (Year now) (Month now) (Day now) (decimal [a, b]) (decimal [c, d])
                        0 0 (Local now)))
        \<and> ParseTime now [a, b, CHR '':'', c, d] = ParseTime now [a, b, c, d])
   \<and> ParseTime now ''7'' = Inr (Date (Year now) (Month now) (Day now) 7 0 0 0 (Local now))
   \<and> ParseTime now ''730'' = Inr (Date (Year now) (Month now) (Day now) 7 30 0 0 (Local now))
   \<and> ParseTime now ''7:30'' = Inr (Date (Year now) (Month now) (Day now) 7 30 0 0 (Local now))
   \<and> ParseTime now ''1400'' = Inr (Date (Year now) (Month now) (Day now) 14 0 0 0 (Local now))
   \<and> FormatTime (Date (Year now) (Month now) (Day now) 7 0 0 0 UTC) = ''07:00''
   \<and> FormatTime (Date (Year now) (Month now) (Day now) 7 30 0 0 UTC) = ''07:30''
   \<and> FormatTime (Date (Year now) (Month now) (Day now) 14 0 0 0 UTC) = ''14:00''"
proof (intro conjI impI)
  assume "isDigit a"
  then show "ParseTime now [a] = ParseTime now [CHR ''0'', a, CHR ''0'', CHR ''0'']"
    using ParseTime_hhmm [of "[a]" now] grammar_shapes(1) [of a a a a]
    by (simp add: spec_hhmm_def isDigit_not_colon)
next
  assume "isDigit a \<and> isDigit b"
  then show "ParseTime now [a, b] = ParseTime now [a, b, CHR ''0'', CHR ''0'']"
    using ParseTime_hhmm [of "[a, b]" now] grammar_shapes(2) [of a b a a]
    by (simp add: spec_hhmm_def isDigit_not_colon)
next
  assume h: "isDigit a \<and> isDigit b \<and> isDigit c"
  then show "ParseTime now [a, b, c] = ParseTime now [CHR ''0'', a, b, c]"
    using ParseTime_hhmm [of "[a, b, c]" now] grammar_shapes(3) [of a b c a]
    by (simp add: spec_hhmm_def isDigit_not_colon)
  from h have "ParseTime now [a, CHR '':'', b, c] = ParseTime now [CHR ''0'', a, b, c]"
    using ParseTime_hhmm [of "[a, CHR '':'', b, c]" now] grammar_shapes(5) [of a a b c]
    by (simp add: spec_hhmm_def isDigit_not_colon)
  moreover from h have "ParseTime now [a, b, c] = ParseTime now [CHR ''0'', a, b, c]"
    using ParseTime_hhmm [of "[a, b, c]" now] grammar_shapes(3) [of a b c a]
    by (simp add: spec_hhmm_def isDigit_not_colon)
  ultimately show "ParseTime now [a, CHR '':'', b, c] = ParseTime now [a, b, c]" by simp
next
  assume h: "isDigit a \<and> isDigit b \<and> isDigit c \<and> isDigit d"
  then have g: "spec_grammar [a, b, c, d]" by (simp add: grammar_shapes)
  from h show "ParseTime now [a, b, c, d]
          = (if decimal [a, b] > 23 then Inl (HoursOutOfRange (decimal [a, b]))
             else if decimal [c, d] > 59 then Inl (MinutesOutOfRange (decimal [c, d]))
             else Inr (Date (Year now) (Month now) (Day now) (decimal [a, b]) (decimal [c, d])
                        0 0 (Local now)))"
    by (simp add: ParseTime_grammar [OF g] parse_result_def spec_hour_def spec_minute_def
        spec_hhmm_def isDigit_not_colon)
  from h show "ParseTime now [a, b, CHR '':'', c, d] = ParseTime now [a, b, c, d]"
    using ParseTime_hhmm [of "[a, b, CHR '':'', c, d]" now] grammar_shapes(6) [of a b c d]
    by (simp add: spec_hhmm_def isDigit_not_colon)
next
  have g: "spec_grammar ''7''" by (simp add: spec_eval)
  show "ParseTime now ''7'' = Inr (Date (Year now) (Month now) (Day now) 7 0 0 0 (Local now))"
    by (simp add: ParseTime_grammar [OF g] parse_result_def) (simp add: spec_eval)
next
  have g: "spec_grammar ''730''" by (simp add: spec_eval)
  show "ParseTime now ''730'' = Inr (Date (Year now) (Month now) (Day now) 7 30 0 0 (Local now))"
    by (simp add: ParseTime_grammar [OF g] parse_result_def) (simp add: spec_eval)
next
  have g: "spec_grammar ''7:30''" by (simp add: spec_eval)
  show "ParseTime now ''7:30'' = Inr (Date (Year now) (Month now) (Day now) 7 30 0 0 (Local now))"
    by (simp add: ParseTime_grammar [OF g] parse_result_def) (simp add: spec_eval)
next
  have g: "spec_grammar ''1400''" by (simp add: spec_eval)
  show "ParseTime now ''1400'' = Inr (Date (Year now) (Month now) (Day now) 14 0 0 0 (Local now))"
    by (simp add: ParseTime_grammar [OF g] parse_result_def) (simp add: spec_eval)
next
  show "FormatTime (Date (Year now) (Month now) (Day now) 7 0 0 0 UTC) = ''07:00''"
    using Date_fields(1,2) [of 7 0 UTC 0 "Year now" "Month now" "Day now"]
    by (simp add: FormatTime_def two_digits_def UTC_def)
next
  show "FormatTime (Date (Year now) (Month now) (Day now) 7 30 0 0 UTC) = ''07:30''"
    using Date_fields(1,2) [of 7 30 UTC 0 "Year now" "Month now" "Day now"]
    by (simp add: FormatTime_def two_digits_def UTC_def)
next
  show "FormatTime (Date (Year now) (Month now) (Day now) 14 0 0 0 UTC) = ''14:00''"
    using Date_fields(1,2) [of 14 0 UTC 0 "Year now" "Month now" "Day now"]
    by (simp add: FormatTime_def two_digits_def UTC_def)
qed

theorem ParseTime_normalizes_by_digit_count_witness:
  "isDigit CHR ''9''
   \<and> ParseTime \<lparr>Year = 2025, Month = 1, Day = 1, Local = UTC\<rparr> ''9''
     = ParseTime \<lparr>Year = 2025, Month = 1, Day = 1, Local = UTC\<rparr> ''0900''
   \<and> ParseTime \<lparr>Year = 2025, Month = 1, Day = 1, Local = UTC\<rparr> ''9:45''
     = ParseTime \<lparr>Year = 2025, Month = 1, Day = 1, Local = UTC\<rparr> ''945''"
proof -
  let ?n = "\<lparr>Year = 2025, Month = 1, Day = 1, Local = UTC\<rparr>"
  have h: "isDigit CHR ''9''" "isDigit CHR ''4''" "isDigit CHR ''5''"
    by (simp_all add: isDigit_def)
  from ParseTime_normalizes_by_digit_count [of "CHR ''9''" ?n] h(1)
  have a: "ParseTime ?n ''9'' = ParseTime ?n ''0900''" by blast
  from ParseTime_normalizes_by_digit_count [of "CHR ''9''" ?n "CHR ''4''" "CHR ''5''"] h
  have b: "ParseTime ?n ''9:45'' = ParseTime ?n ''945''" by blast
  from h(1) a b show ?thesis by blast
qed

end
